theory Spec2Isabelle
  imports Main "HOL-Library.Word" "HOL-Library.List_Lexorder"
begin

unbundle bit_operations_syntax

section \<open>Protobuf wire codec (proto_wire.py)\<close>

text \<open>
  Python \<open>bytes\<close> are lists of 8-bit words; Python integers are unbounded, so varint
  values, keys, field numbers and wire types are \<open>int\<close>. Offsets into the buffer only
  ever grow from 0 and are \<open>nat\<close>. Every \<open>raise\<close> of the source is an \<open>Inl\<close> value.
\<close>

type_synonym byte = "8 word"
type_synonym bytes = "byte list"

datatype wire_error =
    TruncatedVarint
  | VarintTooLong
  | FieldNumberZero
  | TruncatedFixed64
  | TruncatedLengthDelimited
  | TruncatedFixed32
  | UnsupportedWireType int
  | NegativeVarint
  | Fixed32Length
  | Fixed64Length

datatype error =
    ProtoWireError wire_error
  | UnicodeDecodeError
  | TypeError
  | ValueError
  | AttributeError

datatype pvalue = VInt int | VBytes bytes

datatype ProtoField = ProtoField (number: int) (wire_type: int) (pvalue: pvalue)

text \<open>The slice \<open>data[a : a + n]\<close> for an in-range or out-of-range \<open>a\<close>.\<close>

definition slice :: "bytes \<Rightarrow> nat \<Rightarrow> nat \<Rightarrow> bytes" where
  "slice data a n = take n (drop a data)"

text \<open>
  \<open>_read_varint\<close>: the \<open>while True\<close> loop with its two local variables \<open>result\<close> and
  \<open>shift\<close> as arguments. It terminates because the offset grows towards \<open>len(data)\<close>.
\<close>

function read_varint_loop :: "bytes \<Rightarrow> nat \<Rightarrow> int \<Rightarrow> nat \<Rightarrow> error + (int \<times> nat)" where
  "read_varint_loop data offset result shift =
     (if offset \<ge> length data then Inl (ProtoWireError TruncatedVarint)
      else if uint (data ! offset) AND 0x80 = 0
        then Inr (result OR push_bit shift (uint (data ! offset) AND 0x7F), offset + 1)
      else if shift + 7 > 70 then Inl (ProtoWireError VarintTooLong)
      else read_varint_loop data (offset + 1)
             (result OR push_bit shift (uint (data ! offset) AND 0x7F)) (shift + 7))"
  by pat_completeness auto
termination
  by (relation "measure (\<lambda>(data, offset, result, shift). length data - offset)") auto

declare read_varint_loop.simps [simp del]

definition read_varint :: "bytes \<Rightarrow> nat \<Rightarrow> error + (int \<times> nat)" where
  "read_varint data offset = read_varint_loop data offset 0 0"

lemma read_varint_loop_offset:
  "read_varint_loop data offset result shift = Inr (v, offset') \<Longrightarrow>
     offset < offset' \<and> offset' \<le> length data"
proof (induction data offset result shift rule: read_varint_loop.induct)
  case (1 data offset result shift)
  show ?case
  proof (cases "offset \<ge> length data")
    case True
    with "1.prems" show ?thesis by (subst (asm) read_varint_loop.simps) simp
  next
    case inb: False
    show ?thesis
    proof (cases "uint (data ! offset) AND 0x80 = 0")
      case True
      with inb "1.prems" show ?thesis
        by (subst (asm) read_varint_loop.simps) (auto simp del: push_bit_and)
    next
      case cont: False
      show ?thesis
      proof (cases "shift + 7 > 70")
        case True
        with inb cont "1.prems" show ?thesis
          by (subst (asm) read_varint_loop.simps) (simp del: push_bit_and)
      next
        case False
        with inb cont "1.prems"
        have "read_varint_loop data (offset + 1)
                (result OR push_bit shift (uint (data ! offset) AND 0x7F)) (shift + 7)
              = Inr (v, offset')"
          by (subst (asm) read_varint_loop.simps) (simp del: push_bit_and)
        from "1.IH" [OF _ cont _ this] inb False show ?thesis by simp
      qed
    qed
  qed
qed

lemma read_varint_offset:
  "read_varint data offset = Inr (v, offset') \<Longrightarrow> offset < offset' \<and> offset' \<le> length data"
  unfolding read_varint_def by (rule read_varint_loop_offset)

text \<open>
  \<open>decode_message\<close>: the \<open>while offset < len(data)\<close> loop, with the list \<open>fields\<close> built so
  far as an argument.
\<close>

function decode_loop :: "bytes \<Rightarrow> nat \<Rightarrow> ProtoField list \<Rightarrow> error + ProtoField list" where
  "decode_loop data offset fields =
     (if offset < length data then
        (case read_varint data offset of
           Inl e \<Rightarrow> Inl e
         | Inr (key, off1) \<Rightarrow>
             if drop_bit 3 key = 0 then Inl (ProtoWireError FieldNumberZero)
             else if key AND 0x07 = 0 then
               (case read_varint data off1 of
                  Inl e \<Rightarrow> Inl e
                | Inr (v, off2) \<Rightarrow>
                    decode_loop data off2
                      (fields @ [ProtoField (drop_bit 3 key) (key AND 0x07) (VInt v)]))
             else if key AND 0x07 = 1 then
               (if off1 + 8 > length data then Inl (ProtoWireError TruncatedFixed64)
                else decode_loop data (off1 + 8)
                      (fields @ [ProtoField (drop_bit 3 key) (key AND 0x07) (VBytes (slice data off1 8))]))
             else if key AND 0x07 = 2 then
               (case read_varint data off1 of
                  Inl e \<Rightarrow> Inl e
                | Inr (len, off2) \<Rightarrow>
                    if len < 0 \<or> int off2 + len > int (length data)
                      then Inl (ProtoWireError TruncatedLengthDelimited)
                    else decode_loop data (off2 + nat len)
                      (fields @ [ProtoField (drop_bit 3 key) (key AND 0x07)
                                   (VBytes (slice data off2 (nat len)))]))
             else if key AND 0x07 = 5 then
               (if off1 + 4 > length data then Inl (ProtoWireError TruncatedFixed32)
                else decode_loop data (off1 + 4)
                      (fields @ [ProtoField (drop_bit 3 key) (key AND 0x07) (VBytes (slice data off1 4))]))
             else Inl (ProtoWireError (UnsupportedWireType (key AND 0x07))))
      else Inr fields)"
  by pat_completeness auto
termination
proof (relation "measure (\<lambda>(data, offset, fields). length data - offset)", goal_cases)
  case 1
  show ?case by simp
next
  case (2 data offset fields x2 key off1 x2a v off2)
  then show ?case
    using read_varint_offset [of data offset key off1] read_varint_offset [of data off1 v off2]
    by auto
next
  case (3 data offset fields x2 key off1)
  then show ?case
    using read_varint_offset [of data offset key off1] by simp
next
  case (4 data offset fields x2 key off1 x2a len off2)
  then show ?case
    using read_varint_offset [of data offset key off1] read_varint_offset [of data off1 len off2]
    by auto
next
  case (5 data offset fields x2 key off1)
  then show ?case
    using read_varint_offset [of data offset key off1] by simp
qed

declare decode_loop.simps [simp del]

definition decode_message :: "bytes \<Rightarrow> error + ProtoField list" where
  "decode_message data = decode_loop data 0 []"

text \<open>
  \<open>get_first\<close> and \<open>get_all\<close>: the keyword argument \<open>wire_type\<close> is an \<open>int | None\<close>.
\<close>

fun get_first :: "ProtoField list \<Rightarrow> int \<Rightarrow> int option \<Rightarrow> ProtoField option" where
  "get_first [] n wt = None"
| "get_first (f # fs) n wt =
     (if number f \<noteq> n then get_first fs n wt
      else if wt \<noteq> None \<and> wire_type f \<noteq> the wt then get_first fs n wt
      else Some f)"

fun get_all :: "ProtoField list \<Rightarrow> int \<Rightarrow> int option \<Rightarrow> ProtoField list" where
  "get_all [] n wt = []"
| "get_all (f # fs) n wt =
     (if number f \<noteq> n then get_all fs n wt
      else if wt \<noteq> None \<and> wire_type f \<noteq> the wt then get_all fs n wt
      else f # get_all fs n wt)"

text \<open>
  \<open>_encode_varint\<close>: the guard \<open>value < 0\<close> comes first, so the loop only ever sees a
  natural number; \<open>out\<close> is the bytearray built so far.
\<close>

function encode_varint_loop :: "nat \<Rightarrow> bytes \<Rightarrow> bytes" where
  "encode_varint_loop v out =
     (if drop_bit 7 v \<noteq> 0
        then encode_varint_loop (drop_bit 7 v) (out @ [word_of_nat ((v AND 0x7F) OR 0x80)])
      else out @ [word_of_nat (v AND 0x7F)])"
  by pat_completeness auto
termination
proof (relation "measure (\<lambda>(v, out). v)", goal_cases)
  case 1
  show ?case by simp
next
  case (2 v out)
  then have nz: "v div 2 ^ 7 \<noteq> 0" by (simp add: drop_bit_eq_div)
  have "v \<noteq> 0"
  proof
    assume "v = 0"
    with nz show False by simp
  qed
  then have "v div 2 ^ 7 < v" by (intro div_less_dividend) auto
  then show ?case by (simp add: drop_bit_eq_div)
qed

declare encode_varint_loop.simps [simp del]

definition encode_varint :: "int \<Rightarrow> error + bytes" where
  "encode_varint v =
     (if v < 0 then Inl (ProtoWireError NegativeVarint) else Inr (encode_varint_loop (nat v) []))"

definition encode_key :: "int \<Rightarrow> int \<Rightarrow> error + bytes" where
  "encode_key field_number wt = encode_varint (push_bit 3 field_number OR wt)"

definition encode_length_delimited :: "bytes \<Rightarrow> error + bytes" where
  "encode_length_delimited payload =
     (case encode_varint (int (length payload)) of
        Inl e \<Rightarrow> Inl e
      | Inr n \<Rightarrow> Inr (n @ payload))"

definition encode_bytes_field :: "int \<Rightarrow> bytes \<Rightarrow> error + bytes" where
  "encode_bytes_field field_number payload =
     (case encode_key field_number 2 of
        Inl e \<Rightarrow> Inl e
      | Inr k \<Rightarrow> (case encode_length_delimited payload of
                    Inl e \<Rightarrow> Inl e
                  | Inr p \<Rightarrow> Inr (k @ p)))"

definition encode_varint_field :: "int \<Rightarrow> int \<Rightarrow> error + bytes" where
  "encode_varint_field field_number v =
     (case encode_key field_number 0 of
        Inl e \<Rightarrow> Inl e
      | Inr k \<Rightarrow> (case encode_varint v of
                    Inl e \<Rightarrow> Inl e
                  | Inr p \<Rightarrow> Inr (k @ p)))"

section \<open>Notifier messages (notifier_proto.py)\<close>

text \<open>
  A Python \<open>str\<close> is modelled by its UTF-8 encoding, a byte list: \<open>.encode("utf-8")\<close> is then
  the identity, and the lexicographic order of the byte lists is the order of the strings by
  code point, which \<open>sorted\<close> uses. A \<open>set[str]\<close> is given by the list of its elements in
  iteration order.
\<close>

type_synonym pystr = bytes

text \<open>The loop \<open>for topic in sorted(topics): msg += encode_bytes_field(n, topic.encode("utf-8"))\<close>.\<close>

fun append_topics :: "int \<Rightarrow> pystr list \<Rightarrow> bytes \<Rightarrow> error + bytes" where
  "append_topics n [] msg = Inr msg"
| "append_topics n (topic # ts) msg =
     (case encode_bytes_field n topic of
        Inl e \<Rightarrow> Inl e
      | Inr b \<Rightarrow> append_topics n ts (msg @ b))"

definition encode_subscribe_request :: "int \<Rightarrow> pystr list \<Rightarrow> string \<Rightarrow> error + bytes" where
  "encode_subscribe_request req_type topics variant =
     (if variant \<notin> {''type1_topics2'', ''topics1_type2''} then Inl ValueError
      else if variant = ''type1_topics2'' then
        (case encode_varint_field 1 req_type of
           Inl e \<Rightarrow> Inl e
         | Inr msg \<Rightarrow> append_topics 2 (sort topics) msg)
      else
        (case append_topics 1 (sort topics) [] of
           Inl e \<Rightarrow> Inl e
         | Inr msg \<Rightarrow>
             (case encode_varint_field 2 req_type of
                Inl e \<Rightarrow> Inl e
              | Inr t \<Rightarrow> Inr (msg @ t))))"

text \<open>
  \<open>should_refresh_from_subscribe_response\<close>. \<open>except Exception\<close> catches every error. The
  value of a field found with \<open>wire_type=2\<close> is a byte string in every list that
  \<open>decode_message\<close> returns; for an integer value \<open>not event.value\<close> tests for 0 and
  \<open>decode_message\<close> raises a \<open>TypeError\<close>, which is caught.
\<close>

definition should_refresh_from_subscribe_response :: "bytes \<Rightarrow> bool" where
  "should_refresh_from_subscribe_response payload =
     (case decode_message payload of
        Inl e \<Rightarrow> True
      | Inr top_fields \<Rightarrow>
          (case get_first top_fields 1 (Some 2) of
             None \<Rightarrow> False
           | Some event \<Rightarrow>
               (case pvalue event of
                  VInt v \<Rightarrow> v \<noteq> 0
                | VBytes ev \<Rightarrow>
                    if ev = [] then False
                    else (case decode_message ev of
                            Inl e \<Rightarrow> True
                          | Inr event_msg \<Rightarrow>
                              if get_all event_msg 1 (Some 2) \<noteq> [] then True
                              else if get_all event_msg 3 (Some 2) \<noteq> [] then True
                              else False))))"

section \<open>Typed decoders (quilt_parse.py)\<close>

text \<open>
  \<open>bytes.decode("utf-8")\<close> is strict: it raises \<open>UnicodeDecodeError\<close> on a byte string that
  is not well-formed UTF-8 and otherwise returns the string, which is modelled by the same
  bytes. \<open>utf8_valid\<close> is the well-formedness test of the Unicode standard (no overlong
  forms, no surrogates, nothing above U+10FFFF), which the Python decoder applies.
\<close>

definition utf8_cont :: "byte \<Rightarrow> bool" where
  "utf8_cont c = (0x80 \<le> c \<and> c \<le> 0xBF)"

fun utf8_valid :: "bytes \<Rightarrow> bool" where
  "utf8_valid [] = True"
| "utf8_valid (b # rest) =
     (if b < 0x80 then utf8_valid rest
      else if 0xC2 \<le> b \<and> b \<le> 0xDF then
        (case rest of
           c1 # r \<Rightarrow> utf8_cont c1 \<and> utf8_valid r
         | _ \<Rightarrow> False)
      else if 0xE0 \<le> b \<and> b \<le> 0xEF then
        (case rest of
           c1 # c2 # r \<Rightarrow>
             (if b = 0xE0 then 0xA0 \<le> c1 \<and> c1 \<le> 0xBF
              else if b = 0xED then 0x80 \<le> c1 \<and> c1 \<le> 0x9F
              else utf8_cont c1)
             \<and> utf8_cont c2 \<and> utf8_valid r
         | _ \<Rightarrow> False)
      else if 0xF0 \<le> b \<and> b \<le> 0xF4 then
        (case rest of
           c1 # c2 # c3 # r \<Rightarrow>
             (if b = 0xF0 then 0x90 \<le> c1 \<and> c1 \<le> 0xBF
              else if b = 0xF4 then 0x80 \<le> c1 \<and> c1 \<le> 0x8F
              else utf8_cont c1)
             \<and> utf8_cont c2 \<and> utf8_cont c3 \<and> utf8_valid r
         | _ \<Rightarrow> False)
      else False)"

definition decode_utf8 :: "bytes \<Rightarrow> error + pystr" where
  "decode_utf8 b = (if utf8_valid b then Inr b else Inl UnicodeDecodeError)"

text \<open>
  A Python \<open>float\<close> that \<open>struct.unpack\<close> returns is given by the IEEE754 bit pattern it
  was read from: \<open>Float32 w\<close> is the value of the single-precision pattern \<open>w\<close> (which
  \<open>unpack("<f")\<close> widens exactly), \<open>Float64 w\<close> the value of the double-precision pattern
  \<open>w\<close>. The bytes are little-endian. \<open>x != x\<close> holds exactly for a NaN: all exponent bits set
  and a nonzero fraction. The literal \<open>0.0\<close> is \<open>Float64 0\<close>.
\<close>

datatype pyfloat = Float32 "32 word" | Float64 "64 word"

definition is_nan :: "pyfloat \<Rightarrow> bool" where
  "is_nan x =
     (case x of
        Float32 w \<Rightarrow> drop_bit 23 w AND 0xFF = 0xFF \<and> w AND 0x7FFFFF \<noteq> 0
      | Float64 w \<Rightarrow> drop_bit 52 w AND 0x7FF = 0x7FF \<and> w AND 0xFFFFFFFFFFFFF \<noteq> 0)"

definition fixed32_to_float :: "bytes \<Rightarrow> error + pyfloat" where
  "fixed32_to_float v =
     (if length v \<noteq> 4 then Inl (ProtoWireError Fixed32Length)
      else Inr (Float32 (word_rcat (rev v))))"

definition fixed64_to_double :: "bytes \<Rightarrow> error + pyfloat" where
  "fixed64_to_double v =
     (if length v \<noteq> 8 then Inl (ProtoWireError Fixed64Length)
      else Inr (Float64 (word_rcat (rev v))))"

text \<open>Sequencing of calls that may raise.\<close>

definition bindE :: "error + 'a \<Rightarrow> ('a \<Rightarrow> error + 'b) \<Rightarrow> error + 'b" where
  "bindE m f = (case m of Inl e \<Rightarrow> Inl e | Inr x \<Rightarrow> f x)"

text \<open>\<open>g(x) if x is not None else None\<close>.\<close>

definition on_present :: "('a \<Rightarrow> error + 'b) \<Rightarrow> 'a option \<Rightarrow> error + 'b option" where
  "on_present g x =
     (case x of None \<Rightarrow> Inr None | Some y \<Rightarrow> bindE (g y) (\<lambda>r. Inr (Some r)))"

text \<open>
  The uses of \<open>f.value\<close>. In every list that \<open>decode_message\<close> returns, a field of wire
  type 0 carries an \<open>int\<close> and a field of wire type 1, 2 or 5 carries \<open>bytes\<close> (lemma
  \<open>decode_message_wf_field\<close>), and the decoders only read fields they found by wire type, so
  the error branches below are never taken; they stand for the exception Python would raise on
  a value of the other type.
\<close>

definition value_bytes :: "ProtoField \<Rightarrow> error + bytes" where
  "value_bytes f = (case pvalue f of VBytes b \<Rightarrow> Inr b | VInt v \<Rightarrow> Inl TypeError)"

definition value_int :: "ProtoField \<Rightarrow> error + int" where
  "value_int f = (case pvalue f of VInt v \<Rightarrow> Inr v | VBytes b \<Rightarrow> Inl ValueError)"

definition value_str :: "ProtoField \<Rightarrow> error + pystr" where
  "value_str f = (case pvalue f of VBytes b \<Rightarrow> decode_utf8 b | VInt v \<Rightarrow> Inl AttributeError)"

definition value_float32 :: "ProtoField \<Rightarrow> error + pyfloat" where
  "value_float32 f = bindE (value_bytes f) fixed32_to_float"

record QuiltTimestamp =
  seconds :: int
  nanos :: int

record QuiltSystemInfo =
  sys_system_id :: pystr
  sys_name :: pystr
  sys_timezone :: pystr

record QuiltEnergyMetricBucket =
  start_time :: QuiltTimestamp
  status :: "int option"
  energy_usage_kwh :: pyfloat

record QuiltSpaceEnergyMetrics =
  em_space_id :: pystr
  bucket_time_resolution :: "int option"
  energy_buckets :: "QuiltEnergyMetricBucket list"

text \<open>\<open>_parse_timestamp\<close>: only the \<open>ProtoWireError\<close> of \<open>decode_message\<close> is caught.\<close>

definition parse_timestamp :: "bytes \<Rightarrow> error + QuiltTimestamp option" where
  "parse_timestamp raw =
     (case decode_message raw of
        Inl (ProtoWireError w) \<Rightarrow> Inr None
      | Inl e \<Rightarrow> Inl e
      | Inr flds \<Rightarrow>
          (case get_first flds 1 (Some 0) of
             None \<Rightarrow> Inr None
           | Some sec \<Rightarrow>
               bindE (value_int sec) (\<lambda>s.
               bindE (case get_first flds 2 (Some 0) of
                        None \<Rightarrow> Inr 0
                      | Some ns \<Rightarrow> value_int ns) (\<lambda>n.
               Inr (Some \<lparr>seconds = s, nanos = n\<rparr>)))))"

text \<open>\<open>_parse_timestamp(f.value) if f is not None else None\<close>.\<close>

definition timestamp_of :: "ProtoField option \<Rightarrow> error + QuiltTimestamp option" where
  "timestamp_of f =
     (case f of
        None \<Rightarrow> Inr None
      | Some x \<Rightarrow> bindE (value_bytes x) parse_timestamp)"

text \<open>
  \<open>parse_list_systems_response\<close>: \<open>list_systems_entry\<close> is the body of the loop
  (\<open>None\<close> for \<open>continue\<close>), \<open>list_systems_loop\<close> the loop with the list \<open>out\<close>.
\<close>

definition list_systems_entry :: "ProtoField \<Rightarrow> error + QuiltSystemInfo option" where
  "list_systems_entry f =
     bindE (value_bytes f) (\<lambda>raw.
     bindE (decode_message raw) (\<lambda>msg.
       (case get_first msg 1 (Some 2) of
          None \<Rightarrow> Inr None
        | Some sid \<Rightarrow>
            bindE (value_str sid) (\<lambda>system_id.
            bindE (case get_first msg 2 (Some 2) of
                     None \<Rightarrow> value_str sid
                   | Some name \<Rightarrow> value_str name) (\<lambda>nm.
            bindE (case get_first msg 3 (Some 2) of
                     None \<Rightarrow> Inr []
                   | Some tz \<Rightarrow> value_str tz) (\<lambda>tz.
            Inr (Some \<lparr>sys_system_id = system_id, sys_name = nm, sys_timezone = tz\<rparr>)))))))"

fun list_systems_loop :: "ProtoField list \<Rightarrow> QuiltSystemInfo list \<Rightarrow> error + QuiltSystemInfo list" where
  "list_systems_loop [] out = Inr out"
| "list_systems_loop (f # fs) out =
     (case list_systems_entry f of
        Inl e \<Rightarrow> Inl e
      | Inr None \<Rightarrow> list_systems_loop fs out
      | Inr (Some info) \<Rightarrow> list_systems_loop fs (out @ [info]))"

definition parse_list_systems_response :: "bytes \<Rightarrow> error + QuiltSystemInfo list" where
  "parse_list_systems_response data =
     bindE (decode_message data) (\<lambda>top_fields.
       list_systems_loop (get_all top_fields 1 (Some 2)) [])"

text \<open>
  \<open>parse_get_energy_metrics_response\<close>: \<open>energy_bucket\<close> is the body of the inner loop,
  \<open>energy_buckets_loop\<close> the inner loop with the list \<open>buckets\<close>,
  \<open>space_energy_metrics\<close> the body of the outer loop and \<open>energy_metrics_loop\<close> the outer
  loop with the list \<open>out\<close>. A \<open>ProtoField\<close> is always truthy, so \<open>a or b\<close> is \<open>b\<close> exactly
  when \<open>a\<close> is \<open>None\<close>.
\<close>

definition energy_bucket :: "ProtoField \<Rightarrow> error + QuiltEnergyMetricBucket option" where
  "energy_bucket b =
     bindE (value_bytes b) (\<lambda>raw.
     bindE (decode_message raw) (\<lambda>b_fields.
       let ts_f = get_first b_fields 1 (Some 2);
           status_f = get_first b_fields 2 (Some 0);
           energy_f = (case get_first b_fields 3 (Some 1) of
                         Some x \<Rightarrow> Some x
                       | None \<Rightarrow> get_first b_fields 3 (Some 5))
       in
       bindE (timestamp_of ts_f) (\<lambda>ts.
         if ts = None \<or> energy_f = None then Inr None
         else
           bindE (if wire_type (the energy_f) = 1
                    then bindE (value_bytes (the energy_f)) fixed64_to_double
                  else bindE (value_bytes (the energy_f)) fixed32_to_float) (\<lambda>energy.
           bindE (on_present value_int status_f) (\<lambda>st.
           Inr (Some \<lparr>start_time = the ts, status = st,
                       energy_usage_kwh = (if is_nan energy then Float64 0 else energy)\<rparr>))))))"

fun energy_buckets_loop ::
  "ProtoField list \<Rightarrow> QuiltEnergyMetricBucket list \<Rightarrow> error + QuiltEnergyMetricBucket list" where
  "energy_buckets_loop [] buckets = Inr buckets"
| "energy_buckets_loop (b # bs) buckets =
     (case energy_bucket b of
        Inl e \<Rightarrow> Inl e
      | Inr None \<Rightarrow> energy_buckets_loop bs buckets
      | Inr (Some bk) \<Rightarrow> energy_buckets_loop bs (buckets @ [bk]))"

definition space_energy_metrics :: "ProtoField \<Rightarrow> error + QuiltSpaceEnergyMetrics option" where
  "space_energy_metrics f =
     bindE (value_bytes f) (\<lambda>raw.
     bindE (decode_message raw) (\<lambda>flds.
       (case get_first flds 1 (Some 2) of
          None \<Rightarrow> Inr None
        | Some space_id_f \<Rightarrow>
            bindE (energy_buckets_loop (get_all flds 3 (Some 2)) []) (\<lambda>buckets.
            bindE (value_str space_id_f) (\<lambda>space_id.
            bindE (on_present value_int (get_first flds 2 (Some 0))) (\<lambda>res.
            Inr (Some \<lparr>em_space_id = space_id, bucket_time_resolution = res,
                        energy_buckets = buckets\<rparr>)))))))"

fun energy_metrics_loop ::
  "ProtoField list \<Rightarrow> QuiltSpaceEnergyMetrics list \<Rightarrow> error + QuiltSpaceEnergyMetrics list" where
  "energy_metrics_loop [] out = Inr out"
| "energy_metrics_loop (f # fs) out =
     (case space_energy_metrics f of
        Inl e \<Rightarrow> Inl e
      | Inr None \<Rightarrow> energy_metrics_loop fs out
      | Inr (Some m) \<Rightarrow> energy_metrics_loop fs (out @ [m]))"

definition parse_get_energy_metrics_response :: "bytes \<Rightarrow> error + QuiltSpaceEnergyMetrics list" where
  "parse_get_energy_metrics_response data =
     bindE (decode_message data) (\<lambda>top_fields.
       energy_metrics_loop (get_all top_fields 1 (Some 2)) [])"

subsection \<open>The home datastore snapshot\<close>

text \<open>
  The dataclasses of \<open>quilt_parse.py\<close>. Fields that several dataclasses share by name
  (\<open>created\<close>, \<open>updated\<close>, \<open>system_id\<close>, \<open>header\<close>, ...) carry a prefix for their class here.
  A \<open>dict\<close> is a map; the order of its keys plays no part in the claims.
\<close>

record QuiltSpaceHeader =
  space_id :: pystr
  sh_created :: "QuiltTimestamp option"
  sh_updated :: "QuiltTimestamp option"
  sh_system_id :: pystr

record QuiltIndoorUnitHeader =
  indoor_unit_id :: pystr
  iuh_created :: "QuiltTimestamp option"
  iuh_updated :: "QuiltTimestamp option"
  iuh_system_id :: pystr

record QuiltSpaceControls =
  sc_hvac_mode :: "int option"
  sc_setpoint_c :: "pyfloat option"
  sc_cooling_setpoint_c :: "pyfloat option"
  sc_heating_setpoint_c :: "pyfloat option"
  sc_updated :: "QuiltTimestamp option"
  unknown_field7 :: "int option"
  comfort_setting_override :: "int option"
  sc_comfort_setting_id :: "pystr option"

record QuiltSpaceState =
  ss_updated :: "QuiltTimestamp option"
  ss_setpoint_c :: "pyfloat option"
  ambient_c :: "pyfloat option"
  hvac_state :: "int option"
  ss_comfort_setting_id :: "pystr option"

record QuiltSpaceSettings =
  set_name :: "pystr option"
  set_timezone :: "pystr option"

record QuiltSpace =
  sp_header :: QuiltSpaceHeader
  relationships_parent_space_id :: "pystr option"
  sp_settings :: QuiltSpaceSettings
  sp_controls :: QuiltSpaceControls
  sp_state :: QuiltSpaceState

record QuiltIndoorUnitControls =
  iuc_updated :: "QuiltTimestamp option"
  light_color_code :: "int option"
  light_brightness :: "pyfloat option"
  light_animation :: "int option"
  iuc_fan_speed_mode :: "int option"
  iuc_fan_speed_percent :: "pyfloat option"
  iuc_louver_mode :: "int option"
  iuc_louver_fixed_position :: "pyfloat option"

record QuiltIndoorUnitRelationships =
  iur_space_id :: "pystr option"

record QuiltIndoorUnit =
  iu_header :: QuiltIndoorUnitHeader
  iu_relationships :: "QuiltIndoorUnitRelationships option"
  iu_controls :: QuiltIndoorUnitControls

record QuiltComfortSettingHeader =
  comfort_setting_id :: pystr
  csh_created :: "QuiltTimestamp option"
  csh_updated :: "QuiltTimestamp option"
  csh_system_id :: pystr

record QuiltComfortSettingAttributes =
  csa_updated :: "QuiltTimestamp option"
  csa_name :: "pystr option"
  csa_fan_speed_mode :: "int option"
  csa_fan_speed_percent :: "pyfloat option"
  csa_heating_setpoint_c :: "pyfloat option"
  csa_cooling_setpoint_c :: "pyfloat option"
  comfort_setting_type :: "int option"
  csa_hvac_mode :: "int option"
  csa_louver_mode :: "int option"
  csa_louver_fixed_position :: "pyfloat option"

record QuiltComfortSettingRelationships =
  csr_updated :: "QuiltTimestamp option"
  csr_space_id :: "pystr option"

record QuiltComfortSetting =
  cs_header :: QuiltComfortSettingHeader
  cs_attributes :: QuiltComfortSettingAttributes
  cs_relationships :: "QuiltComfortSettingRelationships option"

record QuiltHdsSystem =
  system_id :: "pystr option"
  spaces :: "pystr \<rightharpoonup> QuiltSpace"
  indoor_units :: "pystr \<rightharpoonup> QuiltIndoorUnit"
  indoor_units_by_space :: "pystr \<rightharpoonup> QuiltIndoorUnit list"
  comfort_settings :: "pystr \<rightharpoonup> QuiltComfortSetting"
  comfort_settings_by_space :: "pystr \<rightharpoonup> QuiltComfortSetting list"
  topic_ids :: "string \<rightharpoonup> pystr set"

definition parse_header :: "bytes \<Rightarrow> error + QuiltSpaceHeader option" where
  "parse_header raw =
     bindE (decode_message raw) (\<lambda>flds.
       let sid = get_first flds 1 (Some 2);
           created = get_first flds 2 (Some 2);
           updated = get_first flds 3 (Some 2);
           sysid = get_first flds 4 (Some 2)
       in if sid = None \<or> sysid = None then Inr None
          else
            bindE (value_str (the sid)) (\<lambda>i.
            bindE (timestamp_of created) (\<lambda>c.
            bindE (timestamp_of updated) (\<lambda>u.
            bindE (value_str (the sysid)) (\<lambda>s.
            Inr (Some \<lparr>space_id = i, sh_created = c, sh_updated = u, sh_system_id = s\<rparr>))))))"

definition parse_indoor_unit_header :: "bytes \<Rightarrow> error + QuiltIndoorUnitHeader option" where
  "parse_indoor_unit_header raw =
     bindE (decode_message raw) (\<lambda>flds.
       let oid = get_first flds 1 (Some 2);
           created = get_first flds 2 (Some 2);
           updated = get_first flds 3 (Some 2);
           sysid = get_first flds 4 (Some 2)
       in if oid = None \<or> sysid = None then Inr None
          else
            bindE (value_str (the oid)) (\<lambda>i.
            bindE (timestamp_of created) (\<lambda>c.
            bindE (timestamp_of updated) (\<lambda>u.
            bindE (value_str (the sysid)) (\<lambda>s.
            Inr (Some \<lparr>indoor_unit_id = i, iuh_created = c, iuh_updated = u,
                        iuh_system_id = s\<rparr>))))))"

definition parse_settings :: "bytes \<Rightarrow> error + QuiltSpaceSettings" where
  "parse_settings raw =
     bindE (decode_message raw) (\<lambda>flds.
     bindE (on_present value_str (get_first flds 1 (Some 2))) (\<lambda>n.
     bindE (on_present value_str (get_first flds 4 (Some 2))) (\<lambda>tz.
     Inr \<lparr>set_name = n, set_timezone = tz\<rparr>)))"

definition parse_controls :: "bytes \<Rightarrow> error + QuiltSpaceControls" where
  "parse_controls raw =
     bindE (decode_message raw) (\<lambda>flds.
     bindE (on_present value_int (get_first flds 1 (Some 0))) (\<lambda>hvac_mode.
     bindE (on_present value_float32 (get_first flds 2 (Some 5))) (\<lambda>setpoint.
     bindE (on_present value_float32 (get_first flds 4 (Some 5))) (\<lambda>cooling.
     bindE (on_present value_float32 (get_first flds 5 (Some 5))) (\<lambda>heating.
     bindE (timestamp_of (get_first flds 3 (Some 2))) (\<lambda>updated.
     bindE (on_present value_int (get_first flds 7 (Some 0))) (\<lambda>unknown7.
     bindE (on_present value_int (get_first flds 8 (Some 0))) (\<lambda>override.
     bindE (on_present value_str (get_first flds 9 (Some 2))) (\<lambda>comfort_id.
     Inr \<lparr>sc_hvac_mode = hvac_mode, sc_setpoint_c = setpoint,
          sc_cooling_setpoint_c = cooling, sc_heating_setpoint_c = heating,
          sc_updated = updated, unknown_field7 = unknown7,
          comfort_setting_override = override, sc_comfort_setting_id = comfort_id\<rparr>)))))))))"

definition parse_state :: "bytes \<Rightarrow> error + QuiltSpaceState" where
  "parse_state raw =
     bindE (decode_message raw) (\<lambda>flds.
     bindE (timestamp_of (get_first flds 1 (Some 2))) (\<lambda>updated.
     bindE (on_present value_float32 (get_first flds 2 (Some 5))) (\<lambda>setpoint.
     bindE (on_present value_float32 (get_first flds 3 (Some 5))) (\<lambda>ambient.
     bindE (on_present value_int (get_first flds 4 (Some 0))) (\<lambda>hs.
     bindE (on_present value_str (get_first flds 5 (Some 2))) (\<lambda>comfort_id.
     Inr \<lparr>ss_updated = updated, ss_setpoint_c = setpoint, ambient_c = ambient,
          hvac_state = hs, ss_comfort_setting_id = comfort_id\<rparr>))))))"

definition parse_relationships :: "bytes \<Rightarrow> error + pystr option" where
  "parse_relationships raw =
     bindE (decode_message raw) (\<lambda>flds.
       on_present value_str (get_first flds 2 (Some 2)))"

definition parse_indoor_unit_relationships :: "bytes \<Rightarrow> error + QuiltIndoorUnitRelationships" where
  "parse_indoor_unit_relationships raw =
     bindE (decode_message raw) (\<lambda>flds.
     bindE (on_present value_str (get_first flds 2 (Some 2))) (\<lambda>s.
     Inr \<lparr>iur_space_id = s\<rparr>))"

definition parse_indoor_unit_controls :: "bytes \<Rightarrow> error + QuiltIndoorUnitControls" where
  "parse_indoor_unit_controls raw =
     bindE (decode_message raw) (\<lambda>flds.
     bindE (timestamp_of (get_first flds 7 (Some 2))) (\<lambda>updated.
     bindE (on_present value_int (get_first flds 3 (Some 0))) (\<lambda>color.
     bindE (on_present value_float32 (get_first flds 4 (Some 5))) (\<lambda>brightness.
     bindE (on_present value_int (get_first flds 12 (Some 0))) (\<lambda>anim.
     bindE (on_present value_int (get_first flds 5 (Some 0))) (\<lambda>fan_mode.
     bindE (on_present value_float32 (get_first flds 6 (Some 5))) (\<lambda>fan_percent.
     bindE (on_present value_int (get_first flds 10 (Some 0))) (\<lambda>louver_mode.
     bindE (on_present value_float32 (get_first flds 11 (Some 5))) (\<lambda>louver_pos.
     Inr \<lparr>iuc_updated = updated, light_color_code = color, light_brightness = brightness,
          light_animation = anim, iuc_fan_speed_mode = fan_mode,
          iuc_fan_speed_percent = fan_percent, iuc_louver_mode = louver_mode,
          iuc_louver_fixed_position = louver_pos\<rparr>)))))))))"

definition parse_comfort_setting_header :: "bytes \<Rightarrow> error + QuiltComfortSettingHeader option" where
  "parse_comfort_setting_header raw =
     bindE (decode_message raw) (\<lambda>flds.
       let cid = get_first flds 1 (Some 2);
           created = get_first flds 2 (Some 2);
           updated = get_first flds 3 (Some 2);
           sysid = get_first flds 4 (Some 2)
       in if cid = None \<or> sysid = None then Inr None
          else
            bindE (value_str (the cid)) (\<lambda>i.
            bindE (timestamp_of created) (\<lambda>c.
            bindE (timestamp_of updated) (\<lambda>u.
            bindE (value_str (the sysid)) (\<lambda>s.
            Inr (Some \<lparr>comfort_setting_id = i, csh_created = c, csh_updated = u,
                        csh_system_id = s\<rparr>))))))"

definition parse_comfort_setting_attributes :: "bytes \<Rightarrow> error + QuiltComfortSettingAttributes" where
  "parse_comfort_setting_attributes raw =
     bindE (decode_message raw) (\<lambda>flds.
     bindE (timestamp_of (get_first flds 1 (Some 2))) (\<lambda>updated.
     bindE (on_present value_str (get_first flds 2 (Some 2))) (\<lambda>n.
     bindE (on_present value_int (get_first flds 3 (Some 0))) (\<lambda>fan_mode.
     bindE (on_present value_float32 (get_first flds 4 (Some 5))) (\<lambda>fan_percent.
     bindE (on_present value_float32 (get_first flds 5 (Some 5))) (\<lambda>heat.
     bindE (on_present value_float32 (get_first flds 6 (Some 5))) (\<lambda>cool.
     bindE (on_present value_int (get_first flds 7 (Some 0))) (\<lambda>cs_type.
     bindE (on_present value_int (get_first flds 8 (Some 0))) (\<lambda>hvac_mode.
     bindE (on_present value_int (get_first flds 9 (Some 0))) (\<lambda>louver_mode.
     bindE (on_present value_float32 (get_first flds 10 (Some 5))) (\<lambda>louver_fixed.
     Inr \<lparr>csa_updated = updated, csa_name = n, csa_fan_speed_mode = fan_mode,
          csa_fan_speed_percent = fan_percent, csa_heating_setpoint_c = heat,
          csa_cooling_setpoint_c = cool, comfort_setting_type = cs_type,
          csa_hvac_mode = hvac_mode, csa_louver_mode = louver_mode,
          csa_louver_fixed_position = louver_fixed\<rparr>)))))))))))"

definition parse_comfort_setting_relationships ::
  "bytes \<Rightarrow> error + QuiltComfortSettingRelationships option" where
  "parse_comfort_setting_relationships raw =
     (case decode_message raw of
        Inl (ProtoWireError w) \<Rightarrow> Inr None
      | Inl e \<Rightarrow> Inl e
      | Inr flds \<Rightarrow>
          bindE (timestamp_of (get_first flds 1 (Some 2))) (\<lambda>updated.
          bindE (on_present value_str (get_first flds 2 (Some 2))) (\<lambda>s.
          Inr (Some \<lparr>csr_updated = updated, csr_space_id = s\<rparr>))))"

text \<open>
  A \<open>for\<close> loop whose body updates the local state \<open>st\<close>, may \<open>continue\<close> (the state is
  returned as it is) and may raise (the loop stops with the error).
\<close>

fun for_each :: "('a \<Rightarrow> 's \<Rightarrow> error + 's) \<Rightarrow> 'a list \<Rightarrow> 's \<Rightarrow> error + 's" where
  "for_each body [] st = Inr st"
| "for_each body (x # xs) st =
     (case body x st of
        Inl e \<Rightarrow> Inl e
      | Inr st' \<Rightarrow> for_each body xs st')"

text \<open>\<open>d.setdefault(k, set()).add(x)\<close> and \<open>d.setdefault(k, []).append(x)\<close>.\<close>

definition setdefault_add :: "'k \<Rightarrow> 'v \<Rightarrow> ('k \<rightharpoonup> 'v set) \<Rightarrow> ('k \<rightharpoonup> 'v set)" where
  "setdefault_add k x d = d(k \<mapsto> insert x (case d k of None \<Rightarrow> {} | Some s \<Rightarrow> s))"

definition setdefault_append :: "'k \<Rightarrow> 'v \<Rightarrow> ('k \<rightharpoonup> 'v list) \<Rightarrow> ('k \<rightharpoonup> 'v list)" where
  "setdefault_append k x d = d(k \<mapsto> (case d k of None \<Rightarrow> [] | Some l \<Rightarrow> l) @ [x])"

text \<open>
  \<open>system_id_box[0] or header.system_id\<close>: the right operand when the left one is \<open>None\<close> or
  the empty string.
\<close>

definition box_or :: "pystr option \<Rightarrow> pystr \<Rightarrow> pystr option" where
  "box_or box s = (case box of None \<Rightarrow> Some s | Some b \<Rightarrow> if b = [] then Some s else Some b)"

definition field_to_topic :: "(int \<times> string) list" where
  "field_to_topic =
     [(3, ''space''), (5, ''outdoor_unit_hardware''), (6, ''outdoor_unit''),
      (7, ''quilt_smart_module''), (8, ''indoor_unit_hardware''), (9, ''indoor_unit''),
      (10, ''controller''), (11, ''controller_remote_sensor''), (12, ''controller_hardware''),
      (13, ''comfort_setting''), (14, ''schedule_day''), (15, ''schedule_week''),
      (16, ''software_update_info''), (17, ''location''), (18, ''remote_sensor'')]"

text \<open>
  The body of the inner loop of the topic index (lines 431 to 450): the state is the
  \<open>QuiltHdsSystem\<close> under construction, whose fields are the local variables of
  \<open>parse_get_home_datastore_system_response\<close>.
\<close>

definition topic_object :: "string \<Rightarrow> ProtoField \<Rightarrow> QuiltHdsSystem \<Rightarrow> error + QuiltHdsSystem" where
  "topic_object topic_name obj_f st =
     bindE (value_bytes obj_f) (\<lambda>raw.
       (case decode_message raw of
          Inl (ProtoWireError w) \<Rightarrow> Inr st
        | Inl e \<Rightarrow> Inl e
        | Inr obj_msg \<Rightarrow>
            (case get_first obj_msg 1 (Some 2) of
               None \<Rightarrow> Inr st
             | Some header_f \<Rightarrow>
                 bindE (value_bytes header_f) (\<lambda>hraw.
                   (case decode_message hraw of
                      Inl (ProtoWireError w) \<Rightarrow> Inr st
                    | Inl e \<Rightarrow> Inl e
                    | Inr header_msg \<Rightarrow>
                        (case get_first header_msg 1 (Some 2) of
                           None \<Rightarrow> Inr st
                         | Some oid_f \<Rightarrow>
                             bindE (value_str oid_f) (\<lambda>oid.
                               (case get_first header_msg 4 (Some 2) of
                                  None \<Rightarrow>
                                    Inr (st\<lparr>topic_ids := setdefault_add topic_name oid (topic_ids st)\<rparr>)
                                | Some sys_f \<Rightarrow>
                                    if system_id st = None then
                                      bindE (value_str sys_f) (\<lambda>s.
                                        Inr (st\<lparr>topic_ids := setdefault_add topic_name oid (topic_ids st),
                                                system_id := Some s\<rparr>))
                                    else
                                      Inr (st\<lparr>topic_ids :=
                                                 setdefault_add topic_name oid (topic_ids st)\<rparr>)))))))))"

definition topic_index :: "ProtoField list \<Rightarrow> int \<times> string \<Rightarrow> QuiltHdsSystem \<Rightarrow> error + QuiltHdsSystem" where
  "topic_index top_fields entry st =
     for_each (topic_object (snd entry)) (get_all top_fields (fst entry) (Some 2)) st"

text \<open>The body of the loop over the indoor units (field 9, lines 452 to 486).\<close>

definition indoor_unit_object :: "ProtoField \<Rightarrow> QuiltHdsSystem \<Rightarrow> error + QuiltHdsSystem" where
  "indoor_unit_object f st =
     bindE (value_bytes f) (\<lambda>raw.
       (case decode_message raw of
          Inl (ProtoWireError w) \<Rightarrow> Inr st
        | Inl e \<Rightarrow> Inl e
        | Inr iu_fields \<Rightarrow>
            bindE (case get_first iu_fields 1 (Some 2) of
                     None \<Rightarrow> Inr None
                   | Some header_f \<Rightarrow> bindE (value_bytes header_f) parse_indoor_unit_header) (\<lambda>header.
              (case header of
                 None \<Rightarrow> Inr st
               | Some hdr \<Rightarrow>
                   bindE (on_present (\<lambda>rel_f. bindE (value_bytes rel_f) parse_indoor_unit_relationships)
                            (get_first iu_fields 2 (Some 2))) (\<lambda>rel.
                   bindE (case get_first iu_fields 4 (Some 2) of
                            None \<Rightarrow>
                              Inr \<lparr>iuc_updated = None, light_color_code = None,
                                   light_brightness = None, light_animation = None,
                                   iuc_fan_speed_mode = None, iuc_fan_speed_percent = None,
                                   iuc_louver_mode = None, iuc_louver_fixed_position = None\<rparr>
                          | Some controls_f \<Rightarrow>
                              bindE (value_bytes controls_f) parse_indoor_unit_controls) (\<lambda>controls.
                     let iu = \<lparr>iu_header = hdr, iu_relationships = rel, iu_controls = controls\<rparr>;
                         st1 = st\<lparr>system_id := box_or (system_id st) (iuh_system_id hdr),
                                  indoor_units := (indoor_units st)(indoor_unit_id hdr \<mapsto> iu)\<rparr>;
                         st2 = (if rel \<noteq> None \<and> iur_space_id (the rel) \<noteq> None
                                then st1\<lparr>indoor_units_by_space :=
                                           setdefault_append (the (iur_space_id (the rel))) iu
                                             (indoor_units_by_space st1)\<rparr>
                                else st1)
                     in Inr (st2\<lparr>topic_ids :=
                                  setdefault_add ''indoor_unit'' (indoor_unit_id hdr) (topic_ids st2)\<rparr>)))))))"

text \<open>The body of the loop over the spaces (field 3, lines 487 to 515).\<close>

definition space_object :: "ProtoField \<Rightarrow> QuiltHdsSystem \<Rightarrow> error + QuiltHdsSystem" where
  "space_object f st =
     bindE (value_bytes f) (\<lambda>raw.
     bindE (decode_message raw) (\<lambda>space_fields.
     bindE (case get_first space_fields 1 (Some 2) of
              None \<Rightarrow> Inr None
            | Some header_f \<Rightarrow> bindE (value_bytes header_f) parse_header) (\<lambda>header.
       (case header of
          None \<Rightarrow> Inr st
        | Some hdr \<Rightarrow>
            bindE (case get_first space_fields 3 (Some 2) of
                     None \<Rightarrow> Inr \<lparr>set_name = None, set_timezone = None\<rparr>
                   | Some settings_f \<Rightarrow> bindE (value_bytes settings_f) parse_settings) (\<lambda>settings.
            bindE (case get_first space_fields 4 (Some 2) of
                     None \<Rightarrow>
                       Inr \<lparr>sc_hvac_mode = None, sc_setpoint_c = None,
                            sc_cooling_setpoint_c = None, sc_heating_setpoint_c = None,
                            sc_updated = None, unknown_field7 = None,
                            comfort_setting_override = None, sc_comfort_setting_id = None\<rparr>
                   | Some controls_f \<Rightarrow> bindE (value_bytes controls_f) parse_controls) (\<lambda>controls.
            bindE (case get_first space_fields 5 (Some 2) of
                     None \<Rightarrow>
                       Inr \<lparr>ss_updated = None, ss_setpoint_c = None, ambient_c = None,
                            hvac_state = None, ss_comfort_setting_id = None\<rparr>
                   | Some state_f \<Rightarrow> bindE (value_bytes state_f) parse_state) (\<lambda>state.
            bindE (case get_first space_fields 2 (Some 2) of
                     None \<Rightarrow> Inr None
                   | Some rel_f \<Rightarrow> bindE (value_bytes rel_f) parse_relationships) (\<lambda>parent_space_id.
              Inr (st\<lparr>system_id := box_or (system_id st) (sh_system_id hdr),
                      spaces := (spaces st)(space_id hdr \<mapsto>
                                  \<lparr>sp_header = hdr, relationships_parent_space_id = parent_space_id,
                                   sp_settings = settings, sp_controls = controls,
                                   sp_state = state\<rparr>),
                      topic_ids := setdefault_add ''space'' (space_id hdr) (topic_ids st)\<rparr>)))))))))"

text \<open>The body of the loop over the comfort settings (field 13, lines 517 to 533).\<close>

definition comfort_setting_object :: "ProtoField \<Rightarrow> QuiltHdsSystem \<Rightarrow> error + QuiltHdsSystem" where
  "comfort_setting_object f st =
     bindE (value_bytes f) (\<lambda>raw.
     bindE (decode_message raw) (\<lambda>cs_fields.
     bindE (case get_first cs_fields 1 (Some 2) of
              None \<Rightarrow> Inr None
            | Some header_f \<Rightarrow> bindE (value_bytes header_f) parse_comfort_setting_header) (\<lambda>header.
       if header = None \<or> get_first cs_fields 2 (Some 2) = None then Inr st
       else
         bindE (bindE (value_bytes (the (get_first cs_fields 2 (Some 2))))
                  parse_comfort_setting_attributes) (\<lambda>attrs.
         bindE (case get_first cs_fields 3 (Some 2) of
                  None \<Rightarrow> Inr None
                | Some rel_f \<Rightarrow> bindE (value_bytes rel_f) parse_comfort_setting_relationships) (\<lambda>rel.
           let hdr = the header;
               cs = \<lparr>cs_header = hdr, cs_attributes = attrs, cs_relationships = rel\<rparr>;
               st1 = st\<lparr>system_id := box_or (system_id st) (csh_system_id hdr),
                        comfort_settings := (comfort_settings st)(comfort_setting_id hdr \<mapsto> cs)\<rparr>;
               st2 = (if rel \<noteq> None \<and> csr_space_id (the rel) \<noteq> None
                      then st1\<lparr>comfort_settings_by_space :=
                                 setdefault_append (the (csr_space_id (the rel))) cs
                                   (comfort_settings_by_space st1)\<rparr>
                      else st1)
           in Inr (st2\<lparr>topic_ids :=
                        setdefault_add ''comfort_setting'' (comfort_setting_id hdr)
                          (topic_ids st2)\<rparr>))))))"

text \<open>
  \<open>parse_get_home_datastore_system_response\<close>: \<open>hds_from_fields\<close> is the function from the
  line after \<open>top = decode_message(data)\<close> on, with the four loops in the order of the source.
\<close>

definition hds_empty :: QuiltHdsSystem where
  "hds_empty =
     \<lparr>system_id = None, spaces = Map.empty, indoor_units = Map.empty,
      indoor_units_by_space = Map.empty, comfort_settings = Map.empty,
      comfort_settings_by_space = Map.empty, topic_ids = Map.empty\<rparr>"

definition hds_from_fields :: "ProtoField list \<Rightarrow> error + QuiltHdsSystem" where
  "hds_from_fields top_fields =
     bindE (for_each (topic_index top_fields) field_to_topic hds_empty) (\<lambda>s1.
     bindE (for_each indoor_unit_object (get_all top_fields 9 (Some 2)) s1) (\<lambda>s2.
     bindE (for_each space_object (get_all top_fields 3 (Some 2)) s2) (\<lambda>s3.
     for_each comfort_setting_object (get_all top_fields 13 (Some 2)) s3)))"

definition parse_get_home_datastore_system_response :: "bytes \<Rightarrow> error + QuiltHdsSystem" where
  "parse_get_home_datastore_system_response data =
     bindE (decode_message data) hds_from_fields"

section \<open>Token expiry (api.py)\<close>

text \<open>
  \<open>QuiltApi._jwt_exp_unix\<close> and \<open>QuiltApi.token_expires_soon\<close> call the Python library:
  \<open>base64.urlsafe_b64decode\<close>, \<open>json.loads\<close>, \<open>int\<close> on a float or a string, and
  \<open>time.time\<close>. These are taken as parameters, collected in a record; a library call that
  raises returns \<open>None\<close>, since \<open>except Exception\<close> turns every exception of the function into
  the result \<open>None\<close>. \<open>time_now\<close> is \<open>int(time.time())\<close>. The type \<open>'f\<close> is that of the floats
  of a JSON document. A JSON object is the list of the items of the \<open>dict\<close> that \<open>json.loads\<close>
  built, so its keys are distinct.
\<close>

datatype 'f json =
    JNull
  | JBool bool
  | JInt int
  | JFloat 'f
  | JStr pystr
  | JArray "'f json list"
  | JObject "(pystr \<times> 'f json) list"


text \<open>
  \<open>s.split(".")\<close> on the UTF-8 bytes of \<open>s\<close>: the byte of the separator never occurs inside
  an encoded code point. The last equation has a case that cannot occur (a split is never
  empty).
\<close>

fun split_on :: "byte \<Rightarrow> bytes \<Rightarrow> bytes list" where
  "split_on c [] = [[]]"
| "split_on c (b # bs) =
     (if b = c then [] # split_on c bs
      else (case split_on c bs of
              p # ps \<Rightarrow> (b # p) # ps
            | [] \<Rightarrow> [[b]]))"







section \<open>Proof devices\<close>

text \<open>
  Proof devices: one iteration of the loop of \<open>decode_message\<close> (a key and its value) as a
  function of its own, and the relocation of a returned offset.
\<close>

definition read_field :: "bytes \<Rightarrow> nat \<Rightarrow> error + (ProtoField \<times> nat)" where
  "read_field data offset =
     (case read_varint data offset of
        Inl e \<Rightarrow> Inl e
      | Inr (key, off1) \<Rightarrow>
          if drop_bit 3 key = 0 then Inl (ProtoWireError FieldNumberZero)
          else if key AND 0x07 = 0 then
            (case read_varint data off1 of
               Inl e \<Rightarrow> Inl e
             | Inr (v, off2) \<Rightarrow> Inr (ProtoField (drop_bit 3 key) (key AND 0x07) (VInt v), off2))
          else if key AND 0x07 = 1 then
            (if off1 + 8 > length data then Inl (ProtoWireError TruncatedFixed64)
             else Inr (ProtoField (drop_bit 3 key) (key AND 0x07) (VBytes (slice data off1 8)), off1 + 8))
          else if key AND 0x07 = 2 then
            (case read_varint data off1 of
               Inl e \<Rightarrow> Inl e
             | Inr (len, off2) \<Rightarrow>
                 if len < 0 \<or> int off2 + len > int (length data)
                   then Inl (ProtoWireError TruncatedLengthDelimited)
                 else Inr (ProtoField (drop_bit 3 key) (key AND 0x07)
                             (VBytes (slice data off2 (nat len))), off2 + nat len))
          else if key AND 0x07 = 5 then
            (if off1 + 4 > length data then Inl (ProtoWireError TruncatedFixed32)
             else Inr (ProtoField (drop_bit 3 key) (key AND 0x07) (VBytes (slice data off1 4)), off1 + 4))
          else Inl (ProtoWireError (UnsupportedWireType (key AND 0x07))))"

definition shift_offset :: "nat \<Rightarrow> error + (int \<times> nat) \<Rightarrow> error + (int \<times> nat)" where
  "shift_offset n r = (case r of Inl e \<Rightarrow> Inl e | Inr (v, off) \<Rightarrow> Inr (v, n + off))"

definition shift_field :: "nat \<Rightarrow> error + (ProtoField \<times> nat) \<Rightarrow> error + (ProtoField \<times> nat)" where
  "shift_field n r = (case r of Inl e \<Rightarrow> Inl e | Inr (f, off) \<Rightarrow> Inr (f, n + off))"

definition wf_field :: "ProtoField \<Rightarrow> bool" where
  "wf_field f =
     (number f \<noteq> 0 \<and>
      (case pvalue f of
         VInt v \<Rightarrow> wire_type f = 0
       | VBytes b \<Rightarrow> (wire_type f = 1 \<and> length b = 8) \<or> wire_type f = 2
                     \<or> (wire_type f = 5 \<and> length b = 4)))"

text \<open>
  Proof devices for the snapshot: a change of the topic index alone, and the changes that
  commute with every \<open>setdefault_add\<close>.
\<close>


definition with_topics ::
  "((string \<rightharpoonup> pystr set) \<Rightarrow> (string \<rightharpoonup> pystr set)) \<Rightarrow> QuiltHdsSystem \<Rightarrow> QuiltHdsSystem" where
  "with_topics h st = st\<lparr>topic_ids := h (topic_ids st)\<rparr>"

definition commutes_add :: "((string \<rightharpoonup> pystr set) \<Rightarrow> (string \<rightharpoonup> pystr set)) \<Rightarrow> bool" where
  "commutes_add h = (\<forall>t k m. h (setdefault_add t k m) = setdefault_add t k (h m))"

text \<open>
  Proof device: the id that the id field (field 1) of the header (field 1) of an object
  carries, when the object and its header decode and the header has that field.
\<close>

definition header_id :: "ProtoField \<Rightarrow> pystr option" where
  "header_id f =
     (case pvalue f of
        VInt v \<Rightarrow> None
      | VBytes raw \<Rightarrow>
          (case decode_message raw of
             Inl e \<Rightarrow> None
           | Inr ofs \<Rightarrow>
               (case get_first ofs 1 (Some 2) of
                  None \<Rightarrow> None
                | Some hf \<Rightarrow>
                    (case pvalue hf of
                       VInt v \<Rightarrow> None
                     | VBytes hraw \<Rightarrow>
                         (case decode_message hraw of
                            Inl e \<Rightarrow> None
                          | Inr hfs \<Rightarrow>
                              (case get_first hfs 1 (Some 2) of
                                 None \<Rightarrow> None
                               | Some idf \<Rightarrow>
                                   (case value_str idf of
                                      Inl e \<Rightarrow> None
                                    | Inr k \<Rightarrow> Some k)))))))"

definition ids_from :: "ProtoField list \<Rightarrow> QuiltHdsSystem \<Rightarrow> bool" where
  "ids_from top_fields st =
     ((\<forall>k \<in> dom (spaces st). \<exists>f \<in> set top_fields.
          number f = 3 \<and> wire_type f = 2 \<and> header_id f = Some k)
    \<and> (\<forall>k \<in> dom (indoor_units st). \<exists>f \<in> set top_fields.
          number f = 9 \<and> wire_type f = 2 \<and> header_id f = Some k)
    \<and> (\<forall>k \<in> dom (comfort_settings st). \<exists>f \<in> set top_fields.
          number f = 13 \<and> wire_type f = 2 \<and> header_id f = Some k)
    \<and> (\<forall>t s k. topic_ids st t = Some s \<longrightarrow> k \<in> s \<longrightarrow>
          (\<exists>f \<in> set top_fields. wire_type f = 2 \<and> (number f, t) \<in> set field_to_topic
                \<and> header_id f = Some k)))"


section \<open>Lemmas on the wire codec\<close>

lemma read_varint_loop_append:
  "read_varint_loop pre offset result shift = Inr x \<Longrightarrow>
     read_varint_loop (pre @ rest) offset result shift = Inr x"
proof (induction pre offset result shift rule: read_varint_loop.induct)
  case (1 data offset result shift)
  from "1.prems" have inb: "offset < length data"
    by (subst (asm) read_varint_loop.simps) (simp split: if_splits)
  then have nth: "(data @ rest) ! offset = data ! offset"
    by (simp add: nth_append)
  show ?case
  proof (cases "uint (data ! offset) AND 0x80 = 0")
    case True
    with inb nth "1.prems" show ?thesis
      by (subst (asm) read_varint_loop.simps, subst read_varint_loop.simps)
         (simp del: push_bit_and)
  next
    case cont: False
    show ?thesis
    proof (cases "shift + 7 > 70")
      case True
      with inb cont "1.prems" show ?thesis
        by (subst (asm) read_varint_loop.simps) (simp del: push_bit_and)
    next
      case False
      with inb cont "1.prems"
      have "read_varint_loop data (offset + 1)
              (result OR push_bit shift (uint (data ! offset) AND 0x7F)) (shift + 7) = Inr x"
        by (subst (asm) read_varint_loop.simps) (simp del: push_bit_and)
      from "1.IH" [OF _ cont _ this] inb False
      have "read_varint_loop (data @ rest) (offset + 1)
              (result OR push_bit shift (uint (data ! offset) AND 0x7F)) (shift + 7) = Inr x"
        by simp
      with inb nth cont False show ?thesis
        by (subst read_varint_loop.simps) (simp del: push_bit_and)
    qed
  qed
qed

lemma read_varint_append:
  "read_varint pre offset = Inr x \<Longrightarrow> read_varint (pre @ rest) offset = Inr x"
  unfolding read_varint_def by (rule read_varint_loop_append)

lemma read_varint_loop_shift:
  "read_varint_loop (pre @ rest) (length pre + offset) result shift =
     shift_offset (length pre) (read_varint_loop rest offset result shift)"
proof (induction rest offset result shift rule: read_varint_loop.induct)
  case (1 data offset result shift)
  show ?case
  proof (cases "offset \<ge> length data")
    case True
    then show ?thesis
      by (subst read_varint_loop.simps, subst (2) read_varint_loop.simps)
         (simp add: shift_offset_def)
  next
    case inb: False
    then have nth: "(pre @ data) ! (length pre + offset) = data ! offset"
      by simp
    show ?thesis
    proof (cases "uint (data ! offset) AND 0x80 = 0")
      case True
      with inb nth show ?thesis
        by (subst read_varint_loop.simps, subst (2) read_varint_loop.simps)
           (simp add: shift_offset_def del: push_bit_and)
    next
      case cont: False
      show ?thesis
      proof (cases "shift + 7 > 70")
        case True
        with inb nth cont show ?thesis
          by (subst read_varint_loop.simps, subst (2) read_varint_loop.simps)
             (simp add: shift_offset_def del: push_bit_and)
      next
        case False
        from "1.IH" [OF _ cont _] inb False
        have "read_varint_loop (pre @ data) (length pre + (offset + 1))
                (result OR push_bit shift (uint (data ! offset) AND 0x7F)) (shift + 7) =
              shift_offset (length pre) (read_varint_loop data (offset + 1)
                (result OR push_bit shift (uint (data ! offset) AND 0x7F)) (shift + 7))"
          by simp
        with inb nth cont False show ?thesis
          by (subst read_varint_loop.simps, subst (2) read_varint_loop.simps)
             (simp del: push_bit_and)
      qed
    qed
  qed
qed

lemma read_varint_shift:
  "read_varint (pre @ rest) (length pre + offset) = shift_offset (length pre) (read_varint rest offset)"
  unfolding read_varint_def by (rule read_varint_loop_shift)


lemma decode_loop_unfold:
  "decode_loop data offset flds =
     (if offset < length data then
        (case read_field data offset of
           Inl e \<Rightarrow> Inl e
         | Inr (f, off') \<Rightarrow> decode_loop data off' (flds @ [f]))
      else Inr flds)"
  by (subst decode_loop.simps) (simp add: read_field_def split: sum.splits prod.splits)

lemma read_field_offset:
  "read_field data offset = Inr (f, offset') \<Longrightarrow> offset < offset' \<and> offset' \<le> length data"
  unfolding read_field_def
  by (auto split: sum.splits prod.splits if_splits dest!: read_varint_offset)

lemma slice_append:
  "a + n \<le> length pre \<Longrightarrow> slice (pre @ rest) a n = slice pre a n"
  by (simp add: slice_def)

lemma slice_shift:
  "slice (pre @ rest) (length pre + a) n = slice rest a n"
  by (simp add: slice_def)

lemma read_field_append:
  assumes "read_field pre offset = Inr x"
  shows "read_field (pre @ rest) offset = Inr x"
proof -
  from assms obtain key off1 where k: "read_varint pre offset = Inr (key, off1)"
    unfolding read_field_def by (auto split: sum.splits)
  note k' = read_varint_append [OF k, of rest]
  from read_varint_offset [OF k] have b1: "off1 \<le> length pre" by simp
  show ?thesis
  proof (cases "read_varint pre off1")
    case (Inl e)
    with assms k k' b1 show ?thesis
      unfolding read_field_def
      by (auto split: if_splits simp: slice_append)
  next
    case (Inr p)
    obtain v off2 where p: "p = (v, off2)" by (cases p)
    note v' = read_varint_append [OF Inr [unfolded p], of rest]
    from read_varint_offset [OF Inr [unfolded p]] have b2: "off2 \<le> length pre" by simp
    from assms k k' b1 b2 Inr p v' show ?thesis
      unfolding read_field_def
      by (auto split: if_splits simp: slice_append)
  qed
qed

lemma read_field_shift:
  "read_field (pre @ rest) (length pre + offset) = shift_field (length pre) (read_field rest offset)"
  unfolding read_field_def
  by (auto simp: read_varint_shift shift_offset_def shift_field_def slice_shift
           split: sum.splits prod.splits)

lemma decode_loop_shift:
  "decode_loop (pre @ rest) (length pre + offset) acc = decode_loop rest offset acc"
proof (induction "length rest - offset" arbitrary: offset acc rule: less_induct)
  case less
  show ?case
  proof (cases "offset < length rest")
    case False
    then show ?thesis
      by (subst decode_loop_unfold, subst (2) decode_loop_unfold) simp
  next
    case True
    show ?thesis
    proof (cases "read_field rest offset")
      case (Inl e)
      with True show ?thesis
        by (subst decode_loop_unfold, subst (2) decode_loop_unfold)
           (simp add: read_field_shift shift_field_def)
    next
      case (Inr p)
      obtain f off' where p: "p = (f, off')" by (cases p)
      from read_field_offset [OF Inr [unfolded p]] have "length rest - off' < length rest - offset"
        by auto
      from less [OF this] have "decode_loop (pre @ rest) (length pre + off') (acc @ [f]) =
          decode_loop rest off' (acc @ [f])" .
      with True Inr p show ?thesis
        by (subst decode_loop_unfold, subst (2) decode_loop_unfold)
           (simp add: read_field_shift shift_field_def)
    qed
  qed
qed

lemma decode_loop_acc:
  "decode_loop data offset acc =
     (case decode_loop data offset [] of Inl e \<Rightarrow> Inl e | Inr fs \<Rightarrow> Inr (acc @ fs))"
proof (induction "length data - offset" arbitrary: offset acc rule: less_induct)
  case less
  show ?case
  proof (cases "offset < length data")
    case False
    then show ?thesis
      by (subst decode_loop_unfold, subst (2) decode_loop_unfold) simp
  next
    case True
    show ?thesis
    proof (cases "read_field data offset")
      case (Inl e)
      with True show ?thesis
        by (subst decode_loop_unfold, subst (2) decode_loop_unfold) simp
    next
      case (Inr p)
      obtain f off' where p: "p = (f, off')" by (cases p)
      from read_field_offset [OF Inr [unfolded p]] have m: "length data - off' < length data - offset"
        by auto
      have "decode_loop data offset acc = decode_loop data off' (acc @ [f])"
        using True Inr p by (subst decode_loop_unfold) simp
      also have "\<dots> = (case decode_loop data off' [] of Inl e \<Rightarrow> Inl e | Inr fs \<Rightarrow> Inr ((acc @ [f]) @ fs))"
        by (rule less [OF m])
      also have "\<dots> = (case decode_loop data off' [f] of Inl e \<Rightarrow> Inl e | Inr fs \<Rightarrow> Inr (acc @ fs))"
        by (subst (2) less [OF m]) (simp split: sum.splits)
      also have "decode_loop data off' [f] = decode_loop data offset []"
        using True Inr p by (subst (2) decode_loop_unfold) simp
      finally show ?thesis .
    qed
  qed
qed

lemma decode_loop_prefix:
  "decode_loop pre offset acc = Inr fs \<Longrightarrow> offset \<le> length pre \<Longrightarrow>
     decode_loop (pre @ rest) offset acc = decode_loop (pre @ rest) (length pre) fs"
proof (induction "length pre - offset" arbitrary: offset acc rule: less_induct)
  case less
  show ?case
  proof (cases "offset < length pre")
    case False
    with less.prems have "offset = length pre" by simp
    moreover from False less.prems(1) have "fs = acc"
      by (subst (asm) decode_loop_unfold) simp
    ultimately show ?thesis by simp
  next
    case True
    from True less.prems(1) obtain f off' where
      rf: "read_field pre offset = Inr (f, off')" and
      rest: "decode_loop pre off' (acc @ [f]) = Inr fs"
      by (subst (asm) decode_loop_unfold) (auto split: sum.splits)
    from read_field_offset [OF rf] have m: "length pre - off' < length pre - offset"
      and b: "off' \<le> length pre" by auto
    have "decode_loop (pre @ rest) offset acc = decode_loop (pre @ rest) off' (acc @ [f])"
      using True read_field_append [OF rf, of rest] by (subst decode_loop_unfold) simp
    also have "\<dots> = decode_loop (pre @ rest) (length pre) fs"
      by (rule less.hyps [OF m rest b])
    finally show ?thesis .
  qed
qed

lemma decode_message_append:
  assumes "decode_message pre = Inr fs"
  shows "decode_message (pre @ rest) =
           (case decode_message rest of Inl e \<Rightarrow> Inl e | Inr gs \<Rightarrow> Inr (fs @ gs))"
proof -
  have "decode_message (pre @ rest) = decode_loop (pre @ rest) (length pre) fs"
    using decode_loop_prefix [of pre 0 "[]" fs rest] assms by (simp add: decode_message_def)
  also have "\<dots> = decode_loop rest 0 fs"
    using decode_loop_shift [of pre rest 0 fs] by simp
  also have "\<dots> = (case decode_message rest of Inl e \<Rightarrow> Inl e | Inr gs \<Rightarrow> Inr (fs @ gs))"
    unfolding decode_message_def by (rule decode_loop_acc)
  finally show ?thesis .
qed

lemma decode_message_Nil: "decode_message [] = Inr []"
  by (simp add: decode_message_def decode_loop_unfold)

lemma read_field_wf:
  "read_field data offset = Inr (f, offset') \<Longrightarrow>
     number f \<noteq> 0 \<and> wire_type f \<in> {0, 1, 2, 5}"
  unfolding read_field_def
  by (auto split: sum.splits prod.splits if_splits)

lemma decode_loop_wf:
  "decode_loop data offset acc = Inr fs \<Longrightarrow>
   \<forall>f \<in> set acc. number f \<noteq> 0 \<and> wire_type f \<in> {0, 1, 2, 5} \<Longrightarrow>
   \<forall>f \<in> set fs. number f \<noteq> 0 \<and> wire_type f \<in> {0, 1, 2, 5}"
proof (induction "length data - offset" arbitrary: offset acc rule: less_induct)
  case less
  show ?case
  proof (cases "offset < length data")
    case False
    with less.prems show ?thesis
      by (subst (asm) decode_loop_unfold) simp
  next
    case True
    from True less.prems(1) obtain f off' where
      rf: "read_field data offset = Inr (f, off')" and
      rest: "decode_loop data off' (acc @ [f]) = Inr fs"
      by (subst (asm) decode_loop_unfold) (auto split: sum.splits)
    from read_field_offset [OF rf] have m: "length data - off' < length data - offset"
      by auto
    from read_field_wf [OF rf] less.prems(2)
    have "\<forall>f \<in> set (acc @ [f]). number f \<noteq> 0 \<and> wire_type f \<in> {0, 1, 2, 5}"
      by auto
    from less.hyps [OF m rest this] show ?thesis .
  qed
qed

lemma decode_message_first_field:
  "decode_message rest =
     (if rest = [] then Inr []
      else case read_field rest 0 of
             Inl e \<Rightarrow> Inl e
           | Inr (f, off') \<Rightarrow> decode_loop rest off' [f])"
  unfolding decode_message_def by (subst decode_loop_unfold) (simp split: sum.splits)

subsection \<open>Round trips with the encoders\<close>

lemma bit_128_iff: "bit (128 :: int) n \<longleftrightarrow> n = 7" "bit (128 :: nat) n \<longleftrightarrow> n = 7"
proof -
  have "(128 :: int) = 2 ^ 7" "(128 :: nat) = 2 ^ 7" by simp_all
  then show "bit (128 :: int) n \<longleftrightarrow> n = 7" "bit (128 :: nat) n \<longleftrightarrow> n = 7"
    by (simp_all only: bit_exp_iff) auto
qed

lemma mask7: "(0x7F :: int) = mask 7" "(0x7F :: nat) = mask 7"
  by (simp_all add: mask_eq_exp_minus_1)

lemma split7:
  fixes v :: int
  shows "push_bit s (v AND 0x7F) OR push_bit (s + 7) (drop_bit 7 v) = push_bit s v"
  unfolding mask7
proof (rule bit_eqI)
  fix n
  have "n - s < 7 \<or> 7 + (n - (s + 7)) = n - s" by arith
  then show "bit (push_bit s (v AND mask 7) OR push_bit (s + 7) (drop_bit 7 v)) n = bit (push_bit s v) n"
    by (auto simp: bit_simps bit_take_bit_iff simp flip: take_bit_eq_mask)
qed

lemma byte_cont1:
  fixes v :: nat
  shows "uint (word_of_nat ((v AND 0x7F) OR 0x80) :: byte) AND 0x80 \<noteq> 0"
proof -
  have "bit (uint (word_of_nat ((v AND 0x7F) OR 0x80) :: byte) AND 0x80) 7"
    by (simp add: bit_simps bit_128_iff)
  then show ?thesis by force
qed

lemma byte_cont2:
  fixes v :: nat
  shows "uint (word_of_nat ((v AND 0x7F) OR 0x80) :: byte) AND 0x7F = int v AND 0x7F"
  unfolding mask7
  apply (rule bit_eqI)
  apply (auto simp: bit_simps bit_128_iff bit_take_bit_iff simp flip: take_bit_eq_mask)
  done

lemma byte_cont3:
  fixes v :: nat
  shows "uint (word_of_nat (v AND 0x7F) :: byte) AND 0x80 = 0"
  unfolding mask7
  apply (rule bit_eqI)
  apply (auto simp: bit_simps bit_128_iff bit_take_bit_iff simp flip: take_bit_eq_mask)
  done

lemma byte_cont4:
  fixes v :: nat
  shows "uint (word_of_nat (v AND 0x7F) :: byte) AND 0x7F = int v AND 0x7F"
  unfolding mask7
  apply (rule bit_eqI)
  apply (auto simp: bit_simps bit_take_bit_iff simp flip: take_bit_eq_mask)
  done

lemma drop_bit7_less:
  fixes v :: nat
  assumes "drop_bit 7 v \<noteq> 0"
  shows "drop_bit 7 v < v"
proof -
  from assms have nz: "v div 2 ^ 7 \<noteq> 0" by (simp add: drop_bit_eq_div)
  have "v \<noteq> 0"
  proof
    assume "v = 0"
    with nz show False by simp
  qed
  then have "v div 2 ^ 7 < v" by (intro div_less_dividend) auto
  then show ?thesis by (simp add: drop_bit_eq_div)
qed

lemma encode_varint_loop_acc:
  "encode_varint_loop v out = out @ encode_varint_loop v []"
proof (induction v arbitrary: out rule: less_induct)
  case (less v)
  show ?case
  proof (cases "drop_bit 7 v \<noteq> 0")
    case True
    note IH = less [OF drop_bit7_less [OF True]]
    have "encode_varint_loop v out =
            encode_varint_loop (drop_bit 7 v) (out @ [word_of_nat ((v AND 0x7F) OR 0x80)])"
      using True by (subst encode_varint_loop.simps) simp
    also have "\<dots> = (out @ [word_of_nat ((v AND 0x7F) OR 0x80)]) @ encode_varint_loop (drop_bit 7 v) []"
      by (rule IH)
    also have "\<dots> = out @ encode_varint_loop (drop_bit 7 v) ([] @ [word_of_nat ((v AND 0x7F) OR 0x80)])"
      by (subst (2) IH) simp
    also have "encode_varint_loop (drop_bit 7 v) ([] @ [word_of_nat ((v AND 0x7F) OR 0x80)]) =
            encode_varint_loop v []"
      using True by (subst (2) encode_varint_loop.simps) simp
    finally show ?thesis .
  next
    case False
    then show ?thesis
      by (subst encode_varint_loop.simps, subst (2) encode_varint_loop.simps) simp
  qed
qed

lemma encode_varint_loop_Nil:
  "encode_varint_loop v [] =
     (if drop_bit 7 v \<noteq> 0
        then word_of_nat ((v AND 0x7F) OR 0x80) # encode_varint_loop (drop_bit 7 v) []
      else [word_of_nat (v AND 0x7F)])"
  by (subst encode_varint_loop.simps, subst encode_varint_loop_acc) simp

lemma encode_varint_loop_nonempty: "encode_varint_loop v [] \<noteq> []"
  by (subst encode_varint_loop_Nil) simp

lemma read_varint_loop_encode:
  "v < 2 ^ (7 * (11 - n)) \<Longrightarrow> n \<le> 10 \<Longrightarrow>
   read_varint_loop (encode_varint_loop v []) 0 result (7 * n) =
     Inr (result OR push_bit (7 * n) (int v), length (encode_varint_loop v []))"
proof (induction v arbitrary: n result rule: less_induct)
  case (less v)
  show ?case
  proof (cases "drop_bit 7 v \<noteq> 0")
    case False
    then have small: "v AND 0x7F = v"
      unfolding mask7 by (simp add: take_bit_eq_mask [symmetric] drop_bit_eq_div take_bit_eq_mod)
    have e: "encode_varint_loop v [] = [word_of_nat (v AND 0x7F)]"
      using False by (subst encode_varint_loop_Nil) simp
    have iv: "int v AND 0x7F = int v"
      using small by (metis and_nat_numerals(1) of_nat_and_eq of_nat_numeral)
    show ?thesis
      unfolding e
      by (subst read_varint_loop.simps) (simp add: byte_cont3 byte_cont4 iv del: push_bit_and)
  next
    case True
    let ?b = "word_of_nat ((v AND 0x7F) OR 0x80) :: byte"
    let ?v' = "drop_bit 7 v"
    have e: "encode_varint_loop v [] = [?b] @ encode_varint_loop ?v' []"
      using True by (subst encode_varint_loop_Nil) simp
    from True have ge: "v \<ge> 2 ^ 7"
      by (simp add: drop_bit_eq_div div_eq_0_iff not_less)
    have nlt: "n < 10"
    proof (rule ccontr)
      assume "\<not> n < 10"
      with less.prems have "n = 10" by simp
      with less.prems ge show False by simp
    qed
    then have ex: "7 * (11 - n) = 7 * (11 - (n + 1)) + 7" by simp
    have "v < 2 ^ (7 * (11 - (n + 1))) * 2 ^ 7"
      using less.prems(1) unfolding ex power_add .
    then have bound: "?v' < 2 ^ (7 * (11 - (n + 1)))"
      unfolding drop_bit_eq_div by (rule less_mult_imp_div_less)
    have step: "7 * (n + 1) = 7 * n + 7" by simp
    from nlt have "n + 1 \<le> 10" by simp
    from less.IH [OF drop_bit7_less [OF True] bound this,
                  of "result OR push_bit (7 * n) (int v AND 0x7F)"]
    have IH: "read_varint_loop (encode_varint_loop ?v' []) 0
                 (result OR push_bit (7 * n) (int v AND 0x7F)) (7 * n + 7) =
              Inr ((result OR push_bit (7 * n) (int v AND 0x7F)) OR push_bit (7 * n + 7) (int ?v'),
                   length (encode_varint_loop ?v' []))"
      unfolding step .
    have sh: "read_varint_loop ([?b] @ encode_varint_loop ?v' []) (length [?b] + 0)
                 (result OR push_bit (7 * n) (int v AND 0x7F)) (7 * n + 7) =
              shift_offset (length [?b]) (read_varint_loop (encode_varint_loop ?v' []) 0
                 (result OR push_bit (7 * n) (int v AND 0x7F)) (7 * n + 7))"
      by (rule read_varint_loop_shift)
    have val: "(result OR push_bit (7 * n) (int v AND 0x7F)) OR push_bit (7 * n + 7) (int ?v')
                 = result OR push_bit (7 * n) (int v)"
      using split7 [of "7 * n" "int v"] by (simp add: or.assoc drop_bit_of_nat)
    show ?thesis
      unfolding e
      apply (subst read_varint_loop.simps)
      using sh nlt
      apply (simp only: IH val)
      apply (simp add: byte_cont1 byte_cont2 shift_offset_def del: push_bit_and)
      done
  qed
qed

lemma read_varint_loop_nonneg:
  "read_varint_loop data offset result shift = Inr (v, offset') \<Longrightarrow> 0 \<le> result \<Longrightarrow> 0 \<le> v"
proof (induction data offset result shift rule: read_varint_loop.induct)
  case (1 data offset result shift)
  have nn: "0 \<le> result OR push_bit shift (uint (data ! offset) AND 0x7F)"
    using "1.prems"(2) by (simp del: push_bit_and)
  show ?case
  proof (cases "offset \<ge> length data")
    case True
    with "1.prems" show ?thesis by (subst (asm) read_varint_loop.simps) simp
  next
    case inb: False
    show ?thesis
    proof (cases "uint (data ! offset) AND 0x80 = 0")
      case True
      with inb "1.prems" nn show ?thesis
        by (subst (asm) read_varint_loop.simps) (auto simp del: push_bit_and)
    next
      case cont: False
      show ?thesis
      proof (cases "shift + 7 > 70")
        case True
        with inb cont "1.prems" show ?thesis
          by (subst (asm) read_varint_loop.simps) (simp del: push_bit_and)
      next
        case False
        with inb cont "1.prems"
        have "read_varint_loop data (offset + 1)
                (result OR push_bit shift (uint (data ! offset) AND 0x7F)) (shift + 7)
              = Inr (v, offset')"
          by (subst (asm) read_varint_loop.simps) (simp del: push_bit_and)
        from "1.IH" [OF _ cont _ this nn] inb False show ?thesis by simp
      qed
    qed
  qed
qed

lemma read_varint_nonneg:
  "read_varint data offset = Inr (v, offset') \<Longrightarrow> 0 \<le> v"
  unfolding read_varint_def by (erule read_varint_loop_nonneg) simp

lemma read_varint_encode:
  assumes "0 \<le> v" and "v < 2 ^ 77"
  shows "encode_varint v = Inr (encode_varint_loop (nat v) [])"
    and "read_varint (encode_varint_loop (nat v) [] @ rest) 0 =
           Inr (v, length (encode_varint_loop (nat v) []))"
proof -
  from assms show "encode_varint v = Inr (encode_varint_loop (nat v) [])"
    by (simp add: encode_varint_def)
  from assms have "nat v < 2 ^ (7 * (11 - 0))"
    by (simp add: nat_less_iff)
  from read_varint_loop_encode [OF this, of 0] assms(1)
  have "read_varint (encode_varint_loop (nat v) []) 0 =
           Inr (v, length (encode_varint_loop (nat v) []))"
    by (simp add: read_varint_def)
  then show "read_varint (encode_varint_loop (nat v) [] @ rest) 0 =
           Inr (v, length (encode_varint_loop (nat v) []))"
    by (rule read_varint_append)
qed

lemma decode_loop_drop:
  "offset \<le> length data \<Longrightarrow> decode_loop data offset acc = decode_loop (drop offset data) 0 acc"
  using decode_loop_shift [of "take offset data" "drop offset data" 0 acc]
  by (simp add: min_absorb2)

lemma decode_message_field:
  assumes "read_field rest 0 = Inr (f, off')"
  shows "decode_message rest =
           (case decode_message (drop off' rest) of Inl e \<Rightarrow> Inl e | Inr gs \<Rightarrow> Inr (f # gs))"
proof -
  from read_field_offset [OF assms] have ne: "rest \<noteq> []" and le: "off' \<le> length rest" by auto
  have "decode_message rest = decode_loop rest off' [f]"
    using ne assms by (simp add: decode_message_first_field)
  also have "\<dots> = decode_loop (drop off' rest) 0 [f]"
    by (rule decode_loop_drop [OF le])
  also have "\<dots> = (case decode_message (drop off' rest) of Inl e \<Rightarrow> Inl e | Inr gs \<Rightarrow> Inr ([f] @ gs))"
    unfolding decode_message_def by (rule decode_loop_acc)
  finally show ?thesis by (simp split: sum.splits)
qed

lemma decode_message_append_field:
  assumes "decode_message pre = Inr fs" and "read_field rest 0 = Inr (f, off')"
  shows "decode_message (pre @ rest) =
           (case decode_message (drop off' rest) of Inl e \<Rightarrow> Inl e | Inr gs \<Rightarrow> Inr (fs @ f # gs))"
  by (simp add: decode_message_append [OF assms(1)] decode_message_field [OF assms(2)]
           split: sum.splits)

lemma key_bits:
  fixes n wt :: int
  assumes "0 \<le> wt" "wt < 8"
  shows "drop_bit 3 (push_bit 3 n OR wt) = n" and "(push_bit 3 n OR wt) AND 0x07 = wt"
proof -
  from assms have tb: "take_bit 3 wt = wt"
    by (simp add: take_bit_int_eq_self)
  have m: "(0x07 :: int) = mask 3" by (simp add: mask_eq_exp_minus_1)
  from assms have db: "drop_bit 3 wt = 0"
    by (simp add: drop_bit_eq_div)
  show "drop_bit 3 (push_bit 3 n OR wt) = n"
    by (simp add: db drop_bit_push_bit_int)
  show "(push_bit 3 n OR wt) AND 0x07 = wt"
    unfolding m by (simp add: take_bit_eq_mask [symmetric] tb take_bit_push_bit)
qed

lemma encode_key_ok:
  assumes "0 \<le> n" "n < 2 ^ 74" "0 \<le> wt" "wt < 8"
  shows "encode_key n wt = Inr (encode_varint_loop (nat (push_bit 3 n OR wt)) [])"
    and "read_varint (encode_varint_loop (nat (push_bit 3 n OR wt)) [] @ rest) 0 =
           Inr (push_bit 3 n OR wt, length (encode_varint_loop (nat (push_bit 3 n OR wt)) []))"
proof -
  from assms(1) have nn: "0 \<le> push_bit 3 n OR wt"
    using assms(3) by simp
  from assms(2) have "push_bit 3 n < 2 ^ 77"
    by (simp add: push_bit_eq_mult)
  moreover from assms(4) have "wt < 2 ^ 77" by simp
  ultimately have lt: "push_bit 3 n OR wt < 2 ^ 77"
    using assms(1) by (intro OR_upper) simp_all
  from read_varint_encode [OF nn lt]
  show "encode_key n wt = Inr (encode_varint_loop (nat (push_bit 3 n OR wt)) [])"
    and "read_varint (encode_varint_loop (nat (push_bit 3 n OR wt)) [] @ rest) 0 =
           Inr (push_bit 3 n OR wt, length (encode_varint_loop (nat (push_bit 3 n OR wt)) []))"
    by (simp_all add: encode_key_def)
qed

lemma read_field_encode_varint_field:
  assumes "0 < n" "n < 2 ^ 74" "0 \<le> v" "v < 2 ^ 77"
  shows "\<exists>bs. encode_varint_field n v = Inr bs
            \<and> read_field (bs @ rest) 0 = Inr (ProtoField n 0 (VInt v), length bs)
            \<and> drop (length bs) (bs @ rest) = rest"
proof -
  let ?kb = "encode_varint_loop (nat (push_bit 3 n OR 0)) []"
  let ?vb = "encode_varint_loop (nat v) []"
  from assms have n0: "0 \<le> n" by simp
  have e: "encode_varint_field n v = Inr (?kb @ ?vb)"
    using encode_key_ok(1) [OF n0 assms(2), of 0] read_varint_encode(1) [OF assms(3,4)]
    by (simp add: encode_varint_field_def)
  have k: "read_varint ((?kb @ ?vb) @ rest) 0 = Inr (push_bit 3 n OR 0, length ?kb)"
    using encode_key_ok(2) [OF n0 assms(2), of 0 "?vb @ rest"] by simp
  have "read_varint (?kb @ (?vb @ rest)) (length ?kb + 0) =
          shift_offset (length ?kb) (read_varint (?vb @ rest) 0)"
    by (rule read_varint_shift)
  then have v: "read_varint ((?kb @ ?vb) @ rest) (length ?kb) = Inr (v, length ?kb + length ?vb)"
    using read_varint_encode(2) [OF assms(3,4), of rest] by (simp add: shift_offset_def)
  have "read_field ((?kb @ ?vb) @ rest) 0 = Inr (ProtoField n 0 (VInt v), length (?kb @ ?vb))"
    using k v assms(1) key_bits [of 0 n]
    by (simp add: read_field_def)
  with e show ?thesis by simp
qed

lemma read_field_encode_bytes_field:
  assumes "0 < n" "n < 2 ^ 74" "int (length p) < 2 ^ 77"
  shows "\<exists>bs. encode_bytes_field n p = Inr bs
            \<and> read_field (bs @ rest) 0 = Inr (ProtoField n 2 (VBytes p), length bs)
            \<and> drop (length bs) (bs @ rest) = rest"
proof -
  let ?kb = "encode_varint_loop (nat (push_bit 3 n OR 2)) []"
  let ?lb = "encode_varint_loop (nat (int (length p))) []"
  from assms have n0: "0 \<le> n" by simp
  have l0: "0 \<le> int (length p)" by simp
  have e: "encode_bytes_field n p = Inr (?kb @ ?lb @ p)"
    using encode_key_ok(1) [OF n0 assms(2), of 2] read_varint_encode(1) [OF l0 assms(3)]
    by (simp add: encode_bytes_field_def encode_length_delimited_def)
  have k: "read_varint ((?kb @ ?lb @ p) @ rest) 0 = Inr (push_bit 3 n OR 2, length ?kb)"
    using encode_key_ok(2) [OF n0 assms(2), of 2 "?lb @ p @ rest"] by simp
  have "read_varint (?kb @ (?lb @ p @ rest)) (length ?kb + 0) =
          shift_offset (length ?kb) (read_varint (?lb @ p @ rest) 0)"
    by (rule read_varint_shift)
  then have v: "read_varint ((?kb @ ?lb @ p) @ rest) (length ?kb) =
                  Inr (int (length p), length ?kb + length ?lb)"
    using read_varint_encode(2) [OF l0 assms(3), of "p @ rest"] by (simp add: shift_offset_def)
  have sl: "slice ((?kb @ ?lb @ p) @ rest) (length ?kb + length ?lb) (length p) = p"
    by (simp add: slice_def)
  have "read_field ((?kb @ ?lb @ p) @ rest) 0 = Inr (ProtoField n 2 (VBytes p), length (?kb @ ?lb @ p))"
    using k v assms(1) key_bits [of 2 n] sl
    by (simp add: read_field_def)
  with e show ?thesis by simp
qed

section \<open>Claims on the wire codec\<close>

text \<open>
  Claim C1. The claim asks that a varint which does not terminate within 10 bytes makes the
  decode fail. \<open>_read_varint\<close> tests \<open>shift > 70\<close> after adding 7 for a continuation byte,
  so the test first succeeds after the eleventh continuation byte: a varint of ten
  continuation bytes and a terminating eleventh byte is accepted, and its value carries bit 70.
\<close>

theorem read_varint_accepts_eleven_bytes:
  "read_varint (replicate 10 0x80 @ [0x01]) 0 = Inr (2 ^ 70, 11)
   \<and> decode_message ([0x08] @ replicate 10 0x80 @ [0x01]) = Inr [ProtoField 1 0 (VInt (2 ^ 70))]"
  by code_simp


text \<open>
  Claim C4. After any prefix that decodes to the fields \<open>fs\<close>, \<open>decode_message\<close> fails on a
  key whose field number is 0, on a wire type other than 0, 1, 2 and 5 (so on the reserved 3
  and 4), on a fixed64 or fixed32 field with fewer than 8 or 4 bytes left and on a
  length-delimited field whose declared length exceeds the rest of the buffer. When the rest
  decodes to \<open>gs\<close> the result is \<open>fs @ gs\<close>: the fields come in on-wire order and a
  repeated field is kept each time. Every returned field has a nonzero number and one of the
  four accepted wire types. Otherwise the next field is returned right after \<open>fs\<close>, with the
  number and the wire type that its key carries (the key shifted right by 3 bits, and its low
  3 bits) and with the value that the bytes carry: the varint after the key for wire type 0,
  the next 8 or 4 bytes for the wire types 1 and 5, and for wire type 2 the bytes after the
  length varint, as many as it says; the fields of the bytes after this value follow.
  In particular the fields written by \<open>encode_varint_field\<close> and \<open>encode_bytes_field\<close> are
  read back with their number and their value.
\<close>

theorem decode_message_rejects_and_keeps_order:
  assumes pre: "decode_message pre = Inr fs"
  shows "(read_varint rest 0 = Inr (key, k) \<and> drop_bit 3 key = 0 \<longrightarrow>
            decode_message (pre @ rest) = Inl (ProtoWireError FieldNumberZero))
       \<and> (read_varint rest 0 = Inr (key, k) \<and> drop_bit 3 key \<noteq> 0 \<and> key AND 0x07 \<notin> {0, 1, 2, 5} \<longrightarrow>
            decode_message (pre @ rest) = Inl (ProtoWireError (UnsupportedWireType (key AND 0x07))))
       \<and> (read_varint rest 0 = Inr (key, k) \<and> drop_bit 3 key \<noteq> 0 \<and> key AND 0x07 = 1
            \<and> k + 8 > length rest \<longrightarrow>
            decode_message (pre @ rest) = Inl (ProtoWireError TruncatedFixed64))
       \<and> (read_varint rest 0 = Inr (key, k) \<and> drop_bit 3 key \<noteq> 0 \<and> key AND 0x07 = 5
            \<and> k + 4 > length rest \<longrightarrow>
            decode_message (pre @ rest) = Inl (ProtoWireError TruncatedFixed32))
       \<and> (read_varint rest 0 = Inr (key, k) \<and> drop_bit 3 key \<noteq> 0 \<and> key AND 0x07 = 2
            \<and> read_varint rest k = Inr (len, k2) \<and> int k2 + len > int (length rest) \<longrightarrow>
            decode_message (pre @ rest) = Inl (ProtoWireError TruncatedLengthDelimited))
       \<and> (decode_message rest = Inr gs \<longrightarrow> decode_message (pre @ rest) = Inr (fs @ gs))
       \<and> (\<forall>f \<in> set fs. number f \<noteq> 0 \<and> wire_type f \<in> {0, 1, 2, 5})
       \<and> (read_varint rest 0 = Inr (key, k) \<and> drop_bit 3 key \<noteq> 0 \<and> key AND 0x07 = 0
            \<and> read_varint rest k = Inr (v, k2) \<longrightarrow>
            decode_message (pre @ rest) =
              (case decode_message (drop k2 rest) of
                 Inl e \<Rightarrow> Inl e
               | Inr hs \<Rightarrow> Inr (fs @ ProtoField (drop_bit 3 key) 0 (VInt v) # hs)))
       \<and> (read_varint rest 0 = Inr (key, k) \<and> drop_bit 3 key \<noteq> 0 \<and> key AND 0x07 = 1
            \<and> k + 8 \<le> length rest \<longrightarrow>
            decode_message (pre @ rest) =
              (case decode_message (drop (k + 8) rest) of
                 Inl e \<Rightarrow> Inl e
               | Inr hs \<Rightarrow> Inr (fs @ ProtoField (drop_bit 3 key) 1 (VBytes (take 8 (drop k rest))) # hs)))
       \<and> (read_varint rest 0 = Inr (key, k) \<and> drop_bit 3 key \<noteq> 0 \<and> key AND 0x07 = 2
            \<and> read_varint rest k = Inr (len, k2) \<and> int k2 + len \<le> int (length rest) \<longrightarrow>
            decode_message (pre @ rest) =
              (case decode_message (drop (k2 + nat len) rest) of
                 Inl e \<Rightarrow> Inl e
               | Inr hs \<Rightarrow>
                   Inr (fs @ ProtoField (drop_bit 3 key) 2 (VBytes (take (nat len) (drop k2 rest))) # hs)))
       \<and> (read_varint rest 0 = Inr (key, k) \<and> drop_bit 3 key \<noteq> 0 \<and> key AND 0x07 = 5
            \<and> k + 4 \<le> length rest \<longrightarrow>
            decode_message (pre @ rest) =
              (case decode_message (drop (k + 4) rest) of
                 Inl e \<Rightarrow> Inl e
               | Inr hs \<Rightarrow> Inr (fs @ ProtoField (drop_bit 3 key) 5 (VBytes (take 4 (drop k rest))) # hs)))
       \<and> (0 < n \<and> n < 2 ^ 74 \<and> 0 \<le> x \<and> x < 2 ^ 77 \<longrightarrow>
            (\<exists>bs. encode_varint_field n x = Inr bs
               \<and> decode_message (pre @ bs @ rest) =
                   (case decode_message rest of
                      Inl e \<Rightarrow> Inl e
                    | Inr hs \<Rightarrow> Inr (fs @ ProtoField n 0 (VInt x) # hs))))
       \<and> (0 < n \<and> n < 2 ^ 74 \<and> int (length payload) < 2 ^ 77 \<longrightarrow>
            (\<exists>bs. encode_bytes_field n payload = Inr bs
               \<and> decode_message (pre @ bs @ rest) =
                   (case decode_message rest of
                      Inl e \<Rightarrow> Inl e
                    | Inr hs \<Rightarrow> Inr (fs @ ProtoField n 2 (VBytes payload) # hs))))"
proof -
  have fail: "decode_message (pre @ rest) = Inl e" if "read_field rest 0 = Inl e" "rest \<noteq> []" for e
  proof -
    from that have "decode_message rest = Inl e"
      by (simp add: decode_message_first_field)
    then show ?thesis
      by (simp add: decode_message_append [OF pre, of rest])
  qed
  have ne: "rest \<noteq> []" if "read_varint rest 0 = Inr (key, k)"
    using read_varint_offset [OF that] by auto
  have c1: "read_varint rest 0 = Inr (key, k) \<and> drop_bit 3 key = 0 \<longrightarrow>
            decode_message (pre @ rest) = Inl (ProtoWireError FieldNumberZero)"
    using ne by (auto intro!: fail simp: read_field_def)
  have c2: "read_varint rest 0 = Inr (key, k) \<and> drop_bit 3 key \<noteq> 0 \<and> key AND 0x07 \<notin> {0, 1, 2, 5} \<longrightarrow>
            decode_message (pre @ rest) = Inl (ProtoWireError (UnsupportedWireType (key AND 0x07)))"
    using ne by (auto intro!: fail simp: read_field_def)
  have c3: "read_varint rest 0 = Inr (key, k) \<and> drop_bit 3 key \<noteq> 0 \<and> key AND 0x07 = 1
            \<and> k + 8 > length rest \<longrightarrow>
            decode_message (pre @ rest) = Inl (ProtoWireError TruncatedFixed64)"
    using ne by (auto intro!: fail simp: read_field_def)
  have c4: "read_varint rest 0 = Inr (key, k) \<and> drop_bit 3 key \<noteq> 0 \<and> key AND 0x07 = 5
            \<and> k + 4 > length rest \<longrightarrow>
            decode_message (pre @ rest) = Inl (ProtoWireError TruncatedFixed32)"
    using ne by (auto intro!: fail simp: read_field_def)
  have c5: "read_varint rest 0 = Inr (key, k) \<and> drop_bit 3 key \<noteq> 0 \<and> key AND 0x07 = 2
            \<and> read_varint rest k = Inr (len, k2) \<and> int k2 + len > int (length rest) \<longrightarrow>
            decode_message (pre @ rest) = Inl (ProtoWireError TruncatedLengthDelimited)"
    using ne by (auto intro!: fail simp: read_field_def)
  have c6: "decode_message rest = Inr gs \<longrightarrow> decode_message (pre @ rest) = Inr (fs @ gs)"
    by (simp add: decode_message_append [OF pre])
  have c7: "\<forall>f \<in> set fs. number f \<noteq> 0 \<and> wire_type f \<in> {0, 1, 2, 5}"
    using decode_loop_wf [of pre 0 "[]" fs] pre by (simp add: decode_message_def)
  have c8: "read_varint rest 0 = Inr (key, k) \<and> drop_bit 3 key \<noteq> 0 \<and> key AND 0x07 = 0
            \<and> read_varint rest k = Inr (v, k2) \<longrightarrow>
            decode_message (pre @ rest) =
              (case decode_message (drop k2 rest) of
                 Inl e \<Rightarrow> Inl e
               | Inr hs \<Rightarrow> Inr (fs @ ProtoField (drop_bit 3 key) 0 (VInt v) # hs))"
  proof (intro impI, elim conjE)
    assume "read_varint rest 0 = Inr (key, k)" "drop_bit 3 key \<noteq> 0" "key AND 0x07 = 0"
      "read_varint rest k = Inr (v, k2)"
    then have "read_field rest 0 = Inr (ProtoField (drop_bit 3 key) 0 (VInt v), k2)"
      by (simp add: read_field_def)
    from decode_message_append_field [OF pre this] show "decode_message (pre @ rest) =
              (case decode_message (drop k2 rest) of
                 Inl e \<Rightarrow> Inl e
               | Inr hs \<Rightarrow> Inr (fs @ ProtoField (drop_bit 3 key) 0 (VInt v) # hs))" .
  qed
  have c9: "read_varint rest 0 = Inr (key, k) \<and> drop_bit 3 key \<noteq> 0 \<and> key AND 0x07 = 1
            \<and> k + 8 \<le> length rest \<longrightarrow>
            decode_message (pre @ rest) =
              (case decode_message (drop (k + 8) rest) of
                 Inl e \<Rightarrow> Inl e
               | Inr hs \<Rightarrow> Inr (fs @ ProtoField (drop_bit 3 key) 1 (VBytes (take 8 (drop k rest))) # hs))"
  proof (intro impI, elim conjE)
    assume "read_varint rest 0 = Inr (key, k)" "drop_bit 3 key \<noteq> 0" "key AND 0x07 = 1"
      "k + 8 \<le> length rest"
    then have "read_field rest 0 =
        Inr (ProtoField (drop_bit 3 key) 1 (VBytes (take 8 (drop k rest))), k + 8)"
      by (simp add: read_field_def slice_def)
    from decode_message_append_field [OF pre this] show "decode_message (pre @ rest) =
              (case decode_message (drop (k + 8) rest) of
                 Inl e \<Rightarrow> Inl e
               | Inr hs \<Rightarrow> Inr (fs @ ProtoField (drop_bit 3 key) 1 (VBytes (take 8 (drop k rest))) # hs))" .
  qed
  have c10: "read_varint rest 0 = Inr (key, k) \<and> drop_bit 3 key \<noteq> 0 \<and> key AND 0x07 = 2
            \<and> read_varint rest k = Inr (len, k2) \<and> int k2 + len \<le> int (length rest) \<longrightarrow>
            decode_message (pre @ rest) =
              (case decode_message (drop (k2 + nat len) rest) of
                 Inl e \<Rightarrow> Inl e
               | Inr hs \<Rightarrow>
                   Inr (fs @ ProtoField (drop_bit 3 key) 2 (VBytes (take (nat len) (drop k2 rest))) # hs))"
  proof (intro impI, elim conjE)
    assume a: "read_varint rest 0 = Inr (key, k)" "drop_bit 3 key \<noteq> 0" "key AND 0x07 = 2"
      "read_varint rest k = Inr (len, k2)" "int k2 + len \<le> int (length rest)"
    from read_varint_nonneg [OF a(4)] have "\<not> len < 0" by simp
    with a have "read_field rest 0 =
        Inr (ProtoField (drop_bit 3 key) 2 (VBytes (take (nat len) (drop k2 rest))), k2 + nat len)"
      by (simp add: read_field_def slice_def)
    from decode_message_append_field [OF pre this] show "decode_message (pre @ rest) =
              (case decode_message (drop (k2 + nat len) rest) of
                 Inl e \<Rightarrow> Inl e
               | Inr hs \<Rightarrow>
                   Inr (fs @ ProtoField (drop_bit 3 key) 2 (VBytes (take (nat len) (drop k2 rest))) # hs))" .
  qed
  have c11: "read_varint rest 0 = Inr (key, k) \<and> drop_bit 3 key \<noteq> 0 \<and> key AND 0x07 = 5
            \<and> k + 4 \<le> length rest \<longrightarrow>
            decode_message (pre @ rest) =
              (case decode_message (drop (k + 4) rest) of
                 Inl e \<Rightarrow> Inl e
               | Inr hs \<Rightarrow> Inr (fs @ ProtoField (drop_bit 3 key) 5 (VBytes (take 4 (drop k rest))) # hs))"
  proof (intro impI, elim conjE)
    assume "read_varint rest 0 = Inr (key, k)" "drop_bit 3 key \<noteq> 0" "key AND 0x07 = 5"
      "k + 4 \<le> length rest"
    then have "read_field rest 0 =
        Inr (ProtoField (drop_bit 3 key) 5 (VBytes (take 4 (drop k rest))), k + 4)"
      by (simp add: read_field_def slice_def)
    from decode_message_append_field [OF pre this] show "decode_message (pre @ rest) =
              (case decode_message (drop (k + 4) rest) of
                 Inl e \<Rightarrow> Inl e
               | Inr hs \<Rightarrow> Inr (fs @ ProtoField (drop_bit 3 key) 5 (VBytes (take 4 (drop k rest))) # hs))" .
  qed
  have c12: "0 < n \<and> n < 2 ^ 74 \<and> 0 \<le> x \<and> x < 2 ^ 77 \<longrightarrow>
            (\<exists>bs. encode_varint_field n x = Inr bs
               \<and> decode_message (pre @ bs @ rest) =
                   (case decode_message rest of
                      Inl e \<Rightarrow> Inl e
                    | Inr hs \<Rightarrow> Inr (fs @ ProtoField n 0 (VInt x) # hs)))"
  proof (intro impI, elim conjE)
    assume "0 < n" "n < 2 ^ 74" "0 \<le> x" "x < 2 ^ 77"
    from read_field_encode_varint_field [OF this, of rest] obtain bs where
      e: "encode_varint_field n x = Inr bs" and
      r: "read_field (bs @ rest) 0 = Inr (ProtoField n 0 (VInt x), length bs)"
      by blast
    from decode_message_append_field [OF pre r] e
    show "\<exists>bs. encode_varint_field n x = Inr bs
               \<and> decode_message (pre @ bs @ rest) =
                   (case decode_message rest of
                      Inl e \<Rightarrow> Inl e
                    | Inr hs \<Rightarrow> Inr (fs @ ProtoField n 0 (VInt x) # hs))"
      by simp
  qed
  have c13: "0 < n \<and> n < 2 ^ 74 \<and> int (length payload) < 2 ^ 77 \<longrightarrow>
            (\<exists>bs. encode_bytes_field n payload = Inr bs
               \<and> decode_message (pre @ bs @ rest) =
                   (case decode_message rest of
                      Inl e \<Rightarrow> Inl e
                    | Inr hs \<Rightarrow> Inr (fs @ ProtoField n 2 (VBytes payload) # hs)))"
  proof (intro impI, elim conjE)
    assume "0 < n" "n < 2 ^ 74" "int (length payload) < 2 ^ 77"
    from read_field_encode_bytes_field [OF this, of rest] obtain bs where
      e: "encode_bytes_field n payload = Inr bs" and
      r: "read_field (bs @ rest) 0 = Inr (ProtoField n 2 (VBytes payload), length bs)"
      by blast
    from decode_message_append_field [OF pre r] e
    show "\<exists>bs. encode_bytes_field n payload = Inr bs
               \<and> decode_message (pre @ bs @ rest) =
                   (case decode_message rest of
                      Inl e \<Rightarrow> Inl e
                    | Inr hs \<Rightarrow> Inr (fs @ ProtoField n 2 (VBytes payload) # hs))"
      by simp
  qed
  from c1 c2 c3 c4 c5 c6 c7 c8 c9 c10 c11 c12 c13 show ?thesis by (intro conjI)
qed


theorem decode_message_rejects_and_keeps_order_witness:
  "decode_message ([0x08, 0x01] @ [0x00]) = Inl (ProtoWireError FieldNumberZero)
   \<and> decode_message ([0x08, 0x01] @ [0x0b]) = Inl (ProtoWireError (UnsupportedWireType 3))
   \<and> decode_message ([0x08, 0x01] @ [0x0c]) = Inl (ProtoWireError (UnsupportedWireType 4))
   \<and> decode_message ([0x08, 0x01] @ [0x09, 0x01, 0x02]) = Inl (ProtoWireError TruncatedFixed64)
   \<and> decode_message ([0x08, 0x01] @ [0x0d, 0x00]) = Inl (ProtoWireError TruncatedFixed32)
   \<and> decode_message ([0x08, 0x01] @ [0x0a, 0x0a, 0x00]) = Inl (ProtoWireError TruncatedLengthDelimited)
   \<and> decode_message ([0x08, 0x01] @ [0x08, 0x01]) =
       Inr ([ProtoField 1 0 (VInt 1)] @ [ProtoField 1 0 (VInt 1)])
   \<and> decode_message ([0x08, 0x01] @ [0x10, 0x96, 0x01]) =
       Inr [ProtoField 1 0 (VInt 1), ProtoField 2 0 (VInt 150)]
   \<and> decode_message ([0x08, 0x01] @ [0x19, 0x01, 0x02, 0x03, 0x04, 0x05, 0x06, 0x07, 0x08]) =
       Inr [ProtoField 1 0 (VInt 1),
            ProtoField 3 1 (VBytes [0x01, 0x02, 0x03, 0x04, 0x05, 0x06, 0x07, 0x08])]
   \<and> decode_message ([0x08, 0x01] @ [0x22, 0x02, 0x61, 0x62]) =
       Inr [ProtoField 1 0 (VInt 1), ProtoField 4 2 (VBytes [0x61, 0x62])]
   \<and> decode_message ([0x08, 0x01] @ [0x2d, 0x09, 0x08, 0x07, 0x06]) =
       Inr [ProtoField 1 0 (VInt 1), ProtoField 5 5 (VBytes [0x09, 0x08, 0x07, 0x06])]
   \<and> encode_varint_field 7 300 = Inr [0x38, 0xac, 0x02]
   \<and> decode_message ([0x08, 0x01] @ [0x38, 0xac, 0x02] @ []) =
       Inr [ProtoField 1 0 (VInt 1), ProtoField 7 0 (VInt 300)]
   \<and> encode_bytes_field 9 [0x61] = Inr [0x4a, 0x01, 0x61]
   \<and> decode_message ([0x08, 0x01] @ [0x4a, 0x01, 0x61] @ []) =
       Inr [ProtoField 1 0 (VInt 1), ProtoField 9 2 (VBytes [0x61])]"
proof -
  have pre: "decode_message [0x08, 0x01] = Inr [ProtoField 1 0 (VInt 1)]"
    by code_simp
  have k0: "read_varint [0x00] 0 = Inr (0, 1)" by code_simp
  have k3: "read_varint [0x0b] 0 = Inr (11, 1)" by code_simp
  have k4: "read_varint [0x0c] 0 = Inr (12, 1)" by code_simp
  have k1: "read_varint [0x09, 0x01, 0x02] 0 = Inr (9, 1)" by code_simp
  have k5: "read_varint [0x0d, 0x00] 0 = Inr (13, 1)" by code_simp
  have k2: "read_varint [0x0a, 0x0a, 0x00] 0 = Inr (10, 1)" by code_simp
  have l2: "read_varint [0x0a, 0x0a, 0x00] 1 = Inr (10, 2)" by code_simp
  have nil: "decode_message [] = Inr []" by code_simp
  have a0: "read_varint [0x10, 0x96, 0x01] 0 = Inr (16, 1)" by code_simp
  have a1: "read_varint [0x10, 0x96, 0x01] 1 = Inr (150, 3)" by code_simp
  have b0: "read_varint [0x19, 0x01, 0x02, 0x03, 0x04, 0x05, 0x06, 0x07, 0x08] 0 = Inr (25, 1)"
    by code_simp
  have c0: "read_varint [0x22, 0x02, 0x61, 0x62] 0 = Inr (34, 1)" by code_simp
  have c1: "read_varint [0x22, 0x02, 0x61, 0x62] 1 = Inr (2, 2)" by code_simp
  have d0: "read_varint [0x2d, 0x09, 0x08, 0x07, 0x06] 0 = Inr (45, 1)" by code_simp
  have e0: "encode_varint_field 7 300 = Inr [0x38, 0xac, 0x02]" by code_simp
  have f0: "encode_bytes_field 9 [0x61] = Inr [0x4a, 0x01, 0x61]" by code_simp
  have s1: "decode_message ([0x08, 0x01] @ [0x00]) = Inl (ProtoWireError FieldNumberZero)"
    using decode_message_rejects_and_keeps_order [OF pre, of "[0x00]" 0 1] k0 by simp
  have s2: "decode_message ([0x08, 0x01] @ [0x0b]) = Inl (ProtoWireError (UnsupportedWireType 3))"
    using decode_message_rejects_and_keeps_order [OF pre, of "[0x0b]" 11 1] k3 by simp
  have s3: "decode_message ([0x08, 0x01] @ [0x0c]) = Inl (ProtoWireError (UnsupportedWireType 4))"
    using decode_message_rejects_and_keeps_order [OF pre, of "[0x0c]" 12 1] k4 by simp
  have s4: "decode_message ([0x08, 0x01] @ [0x09, 0x01, 0x02]) = Inl (ProtoWireError TruncatedFixed64)"
    using decode_message_rejects_and_keeps_order [OF pre, of "[0x09, 0x01, 0x02]" 9 1] k1 by simp
  have s5: "decode_message ([0x08, 0x01] @ [0x0d, 0x00]) = Inl (ProtoWireError TruncatedFixed32)"
    using decode_message_rejects_and_keeps_order [OF pre, of "[0x0d, 0x00]" 13 1] k5 by simp
  have s6: "decode_message ([0x08, 0x01] @ [0x0a, 0x0a, 0x00]) =
              Inl (ProtoWireError TruncatedLengthDelimited)"
    using decode_message_rejects_and_keeps_order [OF pre, of "[0x0a, 0x0a, 0x00]" 10 1 10 2] k2 l2
    by simp
  have s7: "decode_message ([0x08, 0x01] @ [0x08, 0x01]) =
              Inr ([ProtoField 1 0 (VInt 1)] @ [ProtoField 1 0 (VInt 1)])"
    using decode_message_rejects_and_keeps_order
            [OF pre, of "[0x08, 0x01]" _ _ _ _ "[ProtoField 1 0 (VInt 1)]"] pre
    by simp
  have s8: "decode_message ([0x08, 0x01] @ [0x10, 0x96, 0x01]) =
              Inr [ProtoField 1 0 (VInt 1), ProtoField 2 0 (VInt 150)]"
    using decode_message_rejects_and_keeps_order
            [OF pre, of "[0x10, 0x96, 0x01]" 16 1 _ 3 _ 150] a0 a1 nil
    by simp
  have s9: "decode_message ([0x08, 0x01] @ [0x19, 0x01, 0x02, 0x03, 0x04, 0x05, 0x06, 0x07, 0x08]) =
              Inr [ProtoField 1 0 (VInt 1),
                   ProtoField 3 1 (VBytes [0x01, 0x02, 0x03, 0x04, 0x05, 0x06, 0x07, 0x08])]"
    using decode_message_rejects_and_keeps_order
            [OF pre, of "[0x19, 0x01, 0x02, 0x03, 0x04, 0x05, 0x06, 0x07, 0x08]" 25 1] b0 nil
    by simp
  have s10: "decode_message ([0x08, 0x01] @ [0x22, 0x02, 0x61, 0x62]) =
              Inr [ProtoField 1 0 (VInt 1), ProtoField 4 2 (VBytes [0x61, 0x62])]"
    using decode_message_rejects_and_keeps_order
            [OF pre, of "[0x22, 0x02, 0x61, 0x62]" 34 1 2 2] c0 c1 nil
    by simp
  have s11: "decode_message ([0x08, 0x01] @ [0x2d, 0x09, 0x08, 0x07, 0x06]) =
              Inr [ProtoField 1 0 (VInt 1), ProtoField 5 5 (VBytes [0x09, 0x08, 0x07, 0x06])]"
    using decode_message_rejects_and_keeps_order
            [OF pre, of "[0x2d, 0x09, 0x08, 0x07, 0x06]" 45 1] d0 nil
    by simp
  have s12: "decode_message ([0x08, 0x01] @ [0x38, 0xac, 0x02] @ []) =
              Inr [ProtoField 1 0 (VInt 1), ProtoField 7 0 (VInt 300)]"
    using decode_message_rejects_and_keeps_order
            [OF pre, of "[]" _ _ _ _ _ _ 7 300] e0 nil
    by simp
  have s13: "decode_message ([0x08, 0x01] @ [0x4a, 0x01, 0x61] @ []) =
              Inr [ProtoField 1 0 (VInt 1), ProtoField 9 2 (VBytes [0x61])]"
    using decode_message_rejects_and_keeps_order
            [OF pre, of "[]" _ _ _ _ _ _ 9 _ "[0x61]"] f0 nil
    by simp
  from s1 s2 s3 s4 s5 s6 s7 s8 s9 s10 s11 e0 s12 f0 s13 show ?thesis by (intro conjI)
qed

section \<open>Claims on the notifier messages\<close>

lemma read_field_wf_field:
  "read_field data offset = Inr (f, offset') \<Longrightarrow> wf_field f"
  unfolding read_field_def wf_field_def
  by (auto split: sum.splits prod.splits if_splits simp: slice_def dest!: read_varint_offset)

lemma decode_loop_wf_field:
  "decode_loop data offset acc = Inr fs \<Longrightarrow> \<forall>f \<in> set acc. wf_field f \<Longrightarrow>
   \<forall>f \<in> set fs. wf_field f"
proof (induction "length data - offset" arbitrary: offset acc rule: less_induct)
  case less
  show ?case
  proof (cases "offset < length data")
    case False
    with less.prems show ?thesis
      by (subst (asm) decode_loop_unfold) simp
  next
    case True
    from True less.prems(1) obtain f off' where
      rf: "read_field data offset = Inr (f, off')" and
      rest: "decode_loop data off' (acc @ [f]) = Inr fs"
      by (subst (asm) decode_loop_unfold) (auto split: sum.splits)
    from read_field_offset [OF rf] have m: "length data - off' < length data - offset"
      by auto
    from read_field_wf_field [OF rf] less.prems(2)
    have "\<forall>f \<in> set (acc @ [f]). wf_field f"
      by auto
    from less.hyps [OF m rest this] show ?thesis .
  qed
qed

lemma decode_message_wf_field:
  "decode_message data = Inr fs \<Longrightarrow> f \<in> set fs \<Longrightarrow> wf_field f"
  using decode_loop_wf_field [of data 0 "[]" fs] by (simp add: decode_message_def)

lemma get_first_Some:
  "get_first fs n wt = Some f \<Longrightarrow>
     f \<in> set fs \<and> number f = n \<and> (\<forall>w. wt = Some w \<longrightarrow> wire_type f = w)"
  by (induction fs) (auto split: if_splits)

lemma get_all_set:
  "f \<in> set (get_all fs n wt) \<Longrightarrow>
     f \<in> set fs \<and> number f = n \<and> (\<forall>w. wt = Some w \<longrightarrow> wire_type f = w)"
  by (induction fs) (auto split: if_splits)

lemma wf_field_bytes:
  "wf_field f \<Longrightarrow> wire_type f \<noteq> 0 \<Longrightarrow> \<exists>b. pvalue f = VBytes b"
  unfolding wf_field_def by (cases "pvalue f") auto

lemma wf_field_int:
  "wf_field f \<Longrightarrow> wire_type f = 0 \<Longrightarrow> \<exists>v. pvalue f = VInt v"
  unfolding wf_field_def by (cases "pvalue f") auto

lemma sort_eq_of_set_eq:
  fixes xs ys :: "'a::linorder list"
  assumes "distinct xs" "distinct ys" "set xs = set ys"
  shows "sort xs = sort ys"
  by (rule sorted_distinct_set_unique) (simp_all add: assms)


text \<open>
  Claim C3. \<open>should_refresh_from_subscribe_response\<close> is true when the payload does not
  decode; false when the decoded envelope has no length-delimited field 1; the value of such a
  field is always a byte string; false when it is empty; true when it is not empty and does not
  decode; and when it decodes, true exactly when the inner message has a length-delimited
  field 1 or a length-delimited field 3.
\<close>

theorem should_refresh_from_subscribe_response_cases:
  "(decode_message payload = Inl e \<longrightarrow> should_refresh_from_subscribe_response payload)
   \<and> (decode_message payload = Inr top_fields \<and> get_first top_fields 1 (Some 2) = None \<longrightarrow>
        \<not> should_refresh_from_subscribe_response payload)
   \<and> (decode_message payload = Inr top_fields \<and> get_first top_fields 1 (Some 2) = Some event \<longrightarrow>
        (\<exists>ev. pvalue event = VBytes ev))
   \<and> (decode_message payload = Inr top_fields \<and> get_first top_fields 1 (Some 2) = Some event
        \<and> pvalue event = VBytes [] \<longrightarrow>
        \<not> should_refresh_from_subscribe_response payload)
   \<and> (decode_message payload = Inr top_fields \<and> get_first top_fields 1 (Some 2) = Some event
        \<and> pvalue event = VBytes ev \<and> ev \<noteq> [] \<and> decode_message ev = Inl e' \<longrightarrow>
        should_refresh_from_subscribe_response payload)
   \<and> (decode_message payload = Inr top_fields \<and> get_first top_fields 1 (Some 2) = Some event
        \<and> pvalue event = VBytes ev \<and> decode_message ev = Inr event_msg \<longrightarrow>
        should_refresh_from_subscribe_response payload =
          (get_all event_msg 1 (Some 2) \<noteq> [] \<or> get_all event_msg 3 (Some 2) \<noteq> []))"
proof -
  have c3: "decode_message payload = Inr top_fields \<and> get_first top_fields 1 (Some 2) = Some event \<longrightarrow>
        (\<exists>ev. pvalue event = VBytes ev)"
  proof (intro impI, elim conjE)
    assume d: "decode_message payload = Inr top_fields"
       and g: "get_first top_fields 1 (Some 2) = Some event"
    from get_first_Some [OF g] have "event \<in> set top_fields" "wire_type event = 2" by auto
    with decode_message_wf_field [OF d] show "\<exists>ev. pvalue event = VBytes ev"
      by (auto intro: wf_field_bytes)
  qed
  have c6: "decode_message payload = Inr top_fields \<and> get_first top_fields 1 (Some 2) = Some event
        \<and> pvalue event = VBytes ev \<and> decode_message ev = Inr event_msg \<longrightarrow>
        should_refresh_from_subscribe_response payload =
          (get_all event_msg 1 (Some 2) \<noteq> [] \<or> get_all event_msg 3 (Some 2) \<noteq> [])"
    using decode_message_Nil
    by (auto simp: should_refresh_from_subscribe_response_def)
  show ?thesis
    apply (intro conjI)
         apply (simp add: should_refresh_from_subscribe_response_def)
        apply (simp add: should_refresh_from_subscribe_response_def)
       apply (rule c3)
      apply (simp add: should_refresh_from_subscribe_response_def)
     apply (simp add: should_refresh_from_subscribe_response_def)
    apply (rule c6)
    done
qed

theorem should_refresh_from_subscribe_response_cases_witness:
  "should_refresh_from_subscribe_response [0x0a]
   \<and> \<not> should_refresh_from_subscribe_response [0x08, 0x01]
   \<and> \<not> should_refresh_from_subscribe_response [0x0a, 0x00]
   \<and> should_refresh_from_subscribe_response [0x0a, 0x01, 0x0a]
   \<and> should_refresh_from_subscribe_response [0x0a, 0x02, 0x0a, 0x00]
   \<and> should_refresh_from_subscribe_response [0x0a, 0x02, 0x1a, 0x00]
   \<and> \<not> should_refresh_from_subscribe_response [0x0a, 0x02, 0x12, 0x00]"
proof -
  have d1: "decode_message [0x0a] = Inl (ProtoWireError TruncatedVarint)" by code_simp
  have d2: "decode_message [0x08, 0x01] = Inr [ProtoField 1 0 (VInt 1)]" by code_simp
  have g2: "get_first [ProtoField 1 0 (VInt 1)] 1 (Some 2) = None" by simp
  have d3: "decode_message [0x0a, 0x00] = Inr [ProtoField 1 2 (VBytes [])]" by code_simp
  have g3: "get_first [ProtoField 1 2 (VBytes [])] 1 (Some 2) = Some (ProtoField 1 2 (VBytes []))"
    by simp
  have d4: "decode_message [0x0a, 0x01, 0x0a] = Inr [ProtoField 1 2 (VBytes [0x0a])]" by code_simp
  have g4: "get_first [ProtoField 1 2 (VBytes [0x0a])] 1 (Some 2) = Some (ProtoField 1 2 (VBytes [0x0a]))"
    by simp
  have d5: "decode_message [0x0a, 0x02, 0x0a, 0x00] = Inr [ProtoField 1 2 (VBytes [0x0a, 0x00])]"
    by code_simp
  have g5: "get_first [ProtoField 1 2 (VBytes [0x0a, 0x00])] 1 (Some 2)
              = Some (ProtoField 1 2 (VBytes [0x0a, 0x00]))"
    by simp
  have e5: "decode_message [0x0a, 0x00] = Inr [ProtoField 1 2 (VBytes [])]" by code_simp
  have d6: "decode_message [0x0a, 0x02, 0x1a, 0x00] = Inr [ProtoField 1 2 (VBytes [0x1a, 0x00])]"
    by code_simp
  have g6: "get_first [ProtoField 1 2 (VBytes [0x1a, 0x00])] 1 (Some 2)
              = Some (ProtoField 1 2 (VBytes [0x1a, 0x00]))"
    by simp
  have e6: "decode_message [0x1a, 0x00] = Inr [ProtoField 3 2 (VBytes [])]" by code_simp
  have d7: "decode_message [0x0a, 0x02, 0x12, 0x00] = Inr [ProtoField 1 2 (VBytes [0x12, 0x00])]"
    by code_simp
  have g7: "get_first [ProtoField 1 2 (VBytes [0x12, 0x00])] 1 (Some 2)
              = Some (ProtoField 1 2 (VBytes [0x12, 0x00]))"
    by simp
  have e7: "decode_message [0x12, 0x00] = Inr [ProtoField 2 2 (VBytes [])]" by code_simp
  have s1: "should_refresh_from_subscribe_response [0x0a]"
    using should_refresh_from_subscribe_response_cases
            [of "[0x0a]" "ProtoWireError TruncatedVarint"] d1 by simp
  have s2: "\<not> should_refresh_from_subscribe_response [0x08, 0x01]"
    using should_refresh_from_subscribe_response_cases
            [of "[0x08, 0x01]" _ "[ProtoField 1 0 (VInt 1)]"] d2 g2 by simp
  have s3: "\<not> should_refresh_from_subscribe_response [0x0a, 0x00]"
    using should_refresh_from_subscribe_response_cases
            [of "[0x0a, 0x00]" _ "[ProtoField 1 2 (VBytes [])]" "ProtoField 1 2 (VBytes [])"]
          d3 g3 by simp
  have e4: "decode_message [0x0a] = Inl (ProtoWireError TruncatedVarint)" by (rule d1)
  have s4: "should_refresh_from_subscribe_response [0x0a, 0x01, 0x0a]"
    using should_refresh_from_subscribe_response_cases
            [of "[0x0a, 0x01, 0x0a]" _ "[ProtoField 1 2 (VBytes [0x0a])]"
                "ProtoField 1 2 (VBytes [0x0a])" "[0x0a]" "ProtoWireError TruncatedVarint"]
          d4 g4 e4 by simp
  have s5: "should_refresh_from_subscribe_response [0x0a, 0x02, 0x0a, 0x00]"
    using should_refresh_from_subscribe_response_cases
            [of "[0x0a, 0x02, 0x0a, 0x00]" _ "[ProtoField 1 2 (VBytes [0x0a, 0x00])]"
                "ProtoField 1 2 (VBytes [0x0a, 0x00])" "[0x0a, 0x00]" _
                "[ProtoField 1 2 (VBytes [])]"]
          d5 g5 e5 by simp
  have s6: "should_refresh_from_subscribe_response [0x0a, 0x02, 0x1a, 0x00]"
    using should_refresh_from_subscribe_response_cases
            [of "[0x0a, 0x02, 0x1a, 0x00]" _ "[ProtoField 1 2 (VBytes [0x1a, 0x00])]"
                "ProtoField 1 2 (VBytes [0x1a, 0x00])" "[0x1a, 0x00]" _
                "[ProtoField 3 2 (VBytes [])]"]
          d6 g6 e6 by simp
  have s7: "\<not> should_refresh_from_subscribe_response [0x0a, 0x02, 0x12, 0x00]"
    using should_refresh_from_subscribe_response_cases
            [of "[0x0a, 0x02, 0x12, 0x00]" _ "[ProtoField 1 2 (VBytes [0x12, 0x00])]"
                "ProtoField 1 2 (VBytes [0x12, 0x00])" "[0x12, 0x00]" _
                "[ProtoField 2 2 (VBytes [])]"]
          d7 g7 e7 by simp
  from s1 s2 s3 s4 s5 s6 s7 show ?thesis by (intro conjI)
qed


lemma encode_bytes_field_eq:
  assumes "0 \<le> n"
  shows "encode_bytes_field n p =
           Inr (encode_varint_loop (nat (push_bit 3 n OR 2)) [] @ encode_varint_loop (length p) [] @ p)"
  using assms by (simp add: encode_bytes_field_def encode_key_def encode_length_delimited_def
                            encode_varint_def)

lemma encode_varint_field_eq:
  assumes "0 \<le> n" "0 \<le> v"
  shows "encode_varint_field n v =
           Inr (encode_varint_loop (nat (push_bit 3 n)) [] @ encode_varint_loop (nat v) [])"
  using assms by (simp add: encode_varint_field_def encode_key_def encode_varint_def)

lemma append_topics_eq:
  assumes "0 \<le> n"
  shows "append_topics n ts msg =
           Inr (msg @ concat (map (\<lambda>t. encode_varint_loop (nat (push_bit 3 n OR 2)) []
                                        @ encode_varint_loop (length t) [] @ t) ts))"
  by (induction ts arbitrary: msg) (simp_all add: encode_bytes_field_eq [OF assms])

lemma decode_message_topics:
  assumes "0 < n" "n < 2 ^ 74" "\<forall>t \<in> set ts. int (length t) < 2 ^ 77"
  shows "decode_message (concat (map (\<lambda>t. encode_varint_loop (nat (push_bit 3 n OR 2)) []
                                        @ encode_varint_loop (length t) [] @ t) ts) @ rest) =
           (case decode_message rest of
              Inl e \<Rightarrow> Inl e
            | Inr hs \<Rightarrow> Inr (map (\<lambda>t. ProtoField n 2 (VBytes t)) ts @ hs))"
  using assms(3)
proof (induction ts)
  case Nil
  show ?case by (simp split: sum.splits)
next
  case (Cons t ts)
  let ?enc = "\<lambda>t. encode_varint_loop (nat (push_bit 3 n OR 2)) [] @ encode_varint_loop (length t) [] @ t"
  from Cons.prems have lt: "int (length t) < 2 ^ 77" by simp
  from assms(1) have n0: "0 \<le> n" by simp
  from read_field_encode_bytes_field [OF assms(1,2) lt, of "concat (map ?enc ts) @ rest"]
  have r: "read_field (?enc t @ concat (map ?enc ts) @ rest) 0 =
             Inr (ProtoField n 2 (VBytes t), length (?enc t))"
    by (simp add: encode_bytes_field_eq [OF n0])
  from Cons.IH Cons.prems
  have IH: "decode_message (concat (map ?enc ts) @ rest) =
           (case decode_message rest of
              Inl e \<Rightarrow> Inl e
            | Inr hs \<Rightarrow> Inr (map (\<lambda>t. ProtoField n 2 (VBytes t)) ts @ hs))"
    by simp
  from decode_message_field [OF r] IH show ?case
    by (simp split: sum.splits)
qed

lemma decode_message_varint_field:
  assumes "0 < n" "n < 2 ^ 74" "0 \<le> v" "v < 2 ^ 77"
  shows "decode_message (encode_varint_loop (nat (push_bit 3 n)) [] @ encode_varint_loop (nat v) [] @ rest) =
           (case decode_message rest of
              Inl e \<Rightarrow> Inl e
            | Inr hs \<Rightarrow> Inr (ProtoField n 0 (VInt v) # hs))"
proof -
  from assms have n0: "0 \<le> n" by simp
  from read_field_encode_varint_field [OF assms, of rest]
  have r: "read_field ((encode_varint_loop (nat (push_bit 3 n)) [] @ encode_varint_loop (nat v) []) @ rest) 0 =
             Inr (ProtoField n 0 (VInt v),
                  length (encode_varint_loop (nat (push_bit 3 n)) [] @ encode_varint_loop (nat v) []))"
    by (simp add: encode_varint_field_eq [OF n0 assms(3)])
  from decode_message_field [OF r] show ?thesis by simp
qed

lemma key_bytes:
  "encode_varint_loop 10 [] = [0x0a]"
  "encode_varint_loop 18 [] = [0x12]"
  "encode_varint_loop 8 [] = [0x08]"
  "encode_varint_loop 16 [] = [0x10]"
  by code_simp+

text \<open>
  Claim C8. \<open>encode_subscribe_request\<close> sorts the topics before encoding them: two
  enumerations of the same set of topics, in whatever iteration order, give the same result
  (the same bytes or the same error) for every request type and every variant, and the result
  is that of the sorted enumeration. The sorted enumeration is ascending in the lexicographic
  order and has each topic of the set once. For a request type that is not negative the
  output is, in the variant \<open>topics1_type2\<close>, one length-delimited field 1 for each topic
  (the key byte, the length varint and the bytes of the topic) in ascending order, followed
  by the varint field 2 with the request type; in the variant \<open>type1_topics2\<close>, the varint
  field 1 with the request type followed by one length-delimited field 2 for each topic in
  ascending order. \<open>decode_message\<close> reads exactly these fields back from the output.
\<close>

theorem encode_subscribe_request_deterministic:
  assumes "distinct xs" and "distinct ys" and "set xs = set ys"
  shows "encode_subscribe_request req_type xs variant = encode_subscribe_request req_type ys variant
         \<and> encode_subscribe_request req_type xs variant =
             encode_subscribe_request req_type (sort xs) variant
         \<and> sorted (sort xs) \<and> distinct (sort xs) \<and> set (sort xs) = set ys
         \<and> (0 \<le> req_type \<longrightarrow>
              encode_subscribe_request req_type xs ''topics1_type2'' =
                Inr (concat (map (\<lambda>t. [0x0a] @ encode_varint_loop (length t) [] @ t) (sort ys))
                     @ [0x10] @ encode_varint_loop (nat req_type) []))
         \<and> (0 \<le> req_type \<longrightarrow>
              encode_subscribe_request req_type xs ''type1_topics2'' =
                Inr ([0x08] @ encode_varint_loop (nat req_type) []
                     @ concat (map (\<lambda>t. [0x12] @ encode_varint_loop (length t) [] @ t) (sort ys))))
         \<and> (0 \<le> req_type \<and> req_type < 2 ^ 77 \<and> (\<forall>t \<in> set xs. int (length t) < 2 ^ 77) \<longrightarrow>
              (\<exists>bs. encode_subscribe_request req_type xs ''topics1_type2'' = Inr bs
                 \<and> decode_message bs =
                     Inr (map (\<lambda>t. ProtoField 1 2 (VBytes t)) (sort ys)
                          @ [ProtoField 2 0 (VInt req_type)])))
         \<and> (0 \<le> req_type \<and> req_type < 2 ^ 77 \<and> (\<forall>t \<in> set xs. int (length t) < 2 ^ 77) \<longrightarrow>
              (\<exists>bs. encode_subscribe_request req_type xs ''type1_topics2'' = Inr bs
                 \<and> decode_message bs =
                     Inr (ProtoField 1 0 (VInt req_type)
                          # map (\<lambda>t. ProtoField 2 2 (VBytes t)) (sort ys))))"
proof -
  have eq: "sort xs = sort ys" by (rule sort_eq_of_set_eq [OF assms])
  have idem: "sort (sort xs) = sort xs" by (simp add: sorted_sort_id)
  have c12: "encode_subscribe_request req_type xs variant = encode_subscribe_request req_type ys variant
         \<and> encode_subscribe_request req_type xs variant =
             encode_subscribe_request req_type (sort xs) variant"
    unfolding encode_subscribe_request_def idem unfolding eq by simp
  have c3: "sorted (sort xs) \<and> distinct (sort xs) \<and> set (sort xs) = set ys"
    using assms by simp
  have t1: "encode_subscribe_request req_type xs ''topics1_type2'' =
                Inr (concat (map (\<lambda>t. [0x0a] @ encode_varint_loop (length t) [] @ t) (sort ys))
                     @ [0x10] @ encode_varint_loop (nat req_type) [])" if "0 \<le> req_type"
    using that append_topics_eq [of 1 "sort ys" "[]"] encode_varint_field_eq [of 2 req_type]
    by (simp add: encode_subscribe_request_def eq key_bytes)
  have t2: "encode_subscribe_request req_type xs ''type1_topics2'' =
                Inr ([0x08] @ encode_varint_loop (nat req_type) []
                     @ concat (map (\<lambda>t. [0x12] @ encode_varint_loop (length t) [] @ t) (sort ys)))"
    if "0 \<le> req_type"
    using that append_topics_eq [of 2 "sort ys"] encode_varint_field_eq [of 1 req_type]
    by (simp add: encode_subscribe_request_def eq key_bytes)
  have d1: "decode_message (concat (map (\<lambda>t. [0x0a] @ encode_varint_loop (length t) [] @ t) (sort ys))
                     @ [0x10] @ encode_varint_loop (nat req_type) []) =
              Inr (map (\<lambda>t. ProtoField 1 2 (VBytes t)) (sort ys) @ [ProtoField 2 0 (VInt req_type)])"
    if "0 \<le> req_type" "req_type < 2 ^ 77" "\<forall>t \<in> set xs. int (length t) < 2 ^ 77"
  proof -
    from that(3) assms(3) have b: "\<forall>t \<in> set (sort ys). int (length t) < 2 ^ 77" by simp
    have "decode_message ([0x10] @ encode_varint_loop (nat req_type) [] @ []) =
            Inr [ProtoField 2 0 (VInt req_type)]"
      using decode_message_varint_field [of 2 req_type "[]"] that decode_message_Nil
      by (simp add: key_bytes)
    with decode_message_topics [of 1 "sort ys" "[0x10] @ encode_varint_loop (nat req_type) []", OF _ _ b]
    show ?thesis by (simp add: key_bytes)
  qed
  have d2: "decode_message ([0x08] @ encode_varint_loop (nat req_type) []
                     @ concat (map (\<lambda>t. [0x12] @ encode_varint_loop (length t) [] @ t) (sort ys))) =
              Inr (ProtoField 1 0 (VInt req_type) # map (\<lambda>t. ProtoField 2 2 (VBytes t)) (sort ys))"
    if "0 \<le> req_type" "req_type < 2 ^ 77" "\<forall>t \<in> set xs. int (length t) < 2 ^ 77"
  proof -
    from that(3) assms(3) have b: "\<forall>t \<in> set (sort ys). int (length t) < 2 ^ 77" by simp
    have "decode_message (concat (map (\<lambda>t. [0x12] @ encode_varint_loop (length t) [] @ t) (sort ys)) @ []) =
            Inr (map (\<lambda>t. ProtoField 2 2 (VBytes t)) (sort ys))"
      using decode_message_topics [of 2 "sort ys" "[]", OF _ _ b] decode_message_Nil
      by (simp add: key_bytes)
    with decode_message_varint_field [of 1 req_type
           "concat (map (\<lambda>t. [0x12] @ encode_varint_loop (length t) [] @ t) (sort ys))"] that
    show ?thesis by (simp add: key_bytes)
  qed
  from c12 c3 t1 t2 d1 d2 show ?thesis by (intro conjI impI) (auto elim!: conjE)
qed


theorem encode_subscribe_request_deterministic_witness:
  "distinct [[0x62], [0x61 :: byte]] \<and> distinct [[0x61], [0x62 :: byte]]
   \<and> set [[0x62], [0x61 :: byte]] = set [[0x61], [0x62]]
   \<and> encode_subscribe_request 0 [[0x62], [0x61]] ''topics1_type2'' =
       encode_subscribe_request 0 [[0x61], [0x62]] ''topics1_type2''
   \<and> encode_subscribe_request 0 [[0x62], [0x61]] ''topics1_type2'' =
       Inr [0x0a, 0x01, 0x61, 0x0a, 0x01, 0x62, 0x10, 0x00]
   \<and> decode_message [0x0a, 0x01, 0x61, 0x0a, 0x01, 0x62, 0x10, 0x00] =
       Inr [ProtoField 1 2 (VBytes [0x61]), ProtoField 1 2 (VBytes [0x62]), ProtoField 2 0 (VInt 0)]
   \<and> encode_subscribe_request 1 [[0x62], [0x61]] ''type1_topics2'' =
       encode_subscribe_request 1 [[0x61], [0x62]] ''type1_topics2''
   \<and> encode_subscribe_request 1 [[0x62], [0x61]] ''type1_topics2'' =
       Inr [0x08, 0x01, 0x12, 0x01, 0x61, 0x12, 0x01, 0x62]
   \<and> decode_message [0x08, 0x01, 0x12, 0x01, 0x61, 0x12, 0x01, 0x62] =
       Inr [ProtoField 1 0 (VInt 1), ProtoField 2 2 (VBytes [0x61]), ProtoField 2 2 (VBytes [0x62])]"
proof -
  have d1: "distinct [[0x62], [0x61 :: byte]]" by simp
  have d2: "distinct [[0x61], [0x62 :: byte]]" by simp
  have s: "set [[0x62], [0x61 :: byte]] = set [[0x61], [0x62]]" by auto
  have srt: "sort [[0x61], [0x62 :: byte]] = [[0x61], [0x62]]" by code_simp
  have v0: "encode_varint_loop 0 [] = [0x00]" by code_simp
  have v1: "encode_varint_loop (Suc 0) [] = [0x01]" by code_simp
  note inst0 = encode_subscribe_request_deterministic [OF d1 d2 s, of 0 "''topics1_type2''"]
  note inst1 = encode_subscribe_request_deterministic [OF d1 d2 s, of 1 "''type1_topics2''"]
  note rest0 = inst0 [THEN conjunct2, THEN conjunct2]
  note rest1 = inst1 [THEN conjunct2, THEN conjunct2]
  have e0: "encode_subscribe_request 0 [[0x62], [0x61]] ''topics1_type2'' =
       encode_subscribe_request 0 [[0x61], [0x62]] ''topics1_type2''"
    by (rule inst0 [THEN conjunct1])
  have b0: "encode_subscribe_request 0 [[0x62], [0x61]] ''topics1_type2'' =
       Inr [0x0a, 0x01, 0x61, 0x0a, 0x01, 0x62, 0x10, 0x00]"
    using rest0 by (simp add: srt v0 v1)
  have m0: "decode_message [0x0a, 0x01, 0x61, 0x0a, 0x01, 0x62, 0x10, 0x00] =
       Inr [ProtoField 1 2 (VBytes [0x61]), ProtoField 1 2 (VBytes [0x62]), ProtoField 2 0 (VInt 0)]"
    using rest0 by (auto simp: srt v0 v1)
  have e1: "encode_subscribe_request 1 [[0x62], [0x61]] ''type1_topics2'' =
       encode_subscribe_request 1 [[0x61], [0x62]] ''type1_topics2''"
    by (rule inst1 [THEN conjunct1])
  have b1: "encode_subscribe_request 1 [[0x62], [0x61]] ''type1_topics2'' =
       Inr [0x08, 0x01, 0x12, 0x01, 0x61, 0x12, 0x01, 0x62]"
    using rest1 by (simp add: srt v0 v1)
  have m1: "decode_message [0x08, 0x01, 0x12, 0x01, 0x61, 0x12, 0x01, 0x62] =
       Inr [ProtoField 1 0 (VInt 1), ProtoField 2 2 (VBytes [0x61]), ProtoField 2 2 (VBytes [0x62])]"
    using rest1 by (auto simp: srt v0 v1)
  from d1 d2 s e0 b0 m0 e1 b1 m1 show ?thesis by (intro conjI)
qed

section \<open>Claims on the typed decoders\<close>

lemma bindE_Inr [simp]: "bindE (Inr x) f = f x"
  by (simp add: bindE_def)

lemma bindE_Inl [simp]: "bindE (Inl e) f = Inl e"
  by (simp add: bindE_def)

lemma bindE_eq_Inr:
  "bindE m f = Inr y \<longleftrightarrow> (\<exists>x. m = Inr x \<and> f x = Inr y)"
  by (cases m) simp_all

lemma get_all_append:
  "get_all (xs @ ys) n wt = get_all xs n wt @ get_all ys n wt"
  by (induction xs) simp_all

lemma decode_message_append3:
  assumes "decode_message pre = Inr fs1" and "decode_message mid = Inr fs" 
      and "decode_message post = Inr fs2"
  shows "decode_message (pre @ mid @ post) = Inr (fs1 @ fs @ fs2)"
    and "decode_message (pre @ post) = Inr (fs1 @ fs2)"
proof -
  have "decode_message (mid @ post) = Inr (fs @ fs2)"
    using decode_message_append [OF assms(2), of post] assms(3) by simp
  then show "decode_message (pre @ mid @ post) = Inr (fs1 @ fs @ fs2)"
    using decode_message_append [OF assms(1), of "mid @ post"] by simp
  show "decode_message (pre @ post) = Inr (fs1 @ fs2)"
    using decode_message_append [OF assms(1), of post] assms(3) by simp
qed

lemma list_systems_loop_acc:
  "list_systems_loop xs out = bindE (list_systems_loop xs []) (\<lambda>r. Inr (out @ r))"
proof (induction xs arbitrary: out)
  case Nil
  show ?case by simp
next
  case (Cons f fs)
  show ?case
  proof (cases "list_systems_entry f")
    case (Inl e)
    then show ?thesis by simp
  next
    case (Inr r)
    show ?thesis
    proof (cases r)
      case None
      with Inr Cons [of out] show ?thesis by simp
    next
      case (Some info)
      have "list_systems_loop (f # fs) out = list_systems_loop fs (out @ [info])"
        using Inr Some by simp
      also have "\<dots> = bindE (list_systems_loop fs []) (\<lambda>r. Inr ((out @ [info]) @ r))"
        by (rule Cons)
      also have "\<dots> = bindE (list_systems_loop fs [info]) (\<lambda>r. Inr (out @ r))"
        by (subst (2) Cons) (cases "list_systems_loop fs []", simp_all)
      also have "list_systems_loop fs [info] = list_systems_loop (f # fs) []"
        using Inr Some by simp
      finally show ?thesis .
    qed
  qed
qed

lemma list_systems_loop_append:
  "list_systems_loop (xs @ ys) out = bindE (list_systems_loop xs out) (list_systems_loop ys)"
  by (induction xs arbitrary: out) (simp_all split: sum.splits option.splits)

lemma list_systems_loop_single:
  "list_systems_loop [f] [] =
     bindE (list_systems_entry f) (\<lambda>r. Inr (case r of None \<Rightarrow> [] | Some i \<Rightarrow> [i]))"
  by (cases "list_systems_entry f") (simp_all split: option.splits)

lemma parse_list_systems_insert:
  assumes pre: "decode_message pre = Inr fs1"
      and mid: "decode_message entry = Inr [f]"
      and post: "decode_message post = Inr fs2"
      and f: "number f = 1" "wire_type f = 2"
      and e: "list_systems_entry f = Inr r"
  shows "parse_list_systems_response (pre @ entry @ post) =
           bindE (parse_list_systems_response pre) (\<lambda>a.
           bindE (parse_list_systems_response post) (\<lambda>b.
             Inr (a @ (case r of None \<Rightarrow> [] | Some i \<Rightarrow> [i]) @ b)))"
proof -
  have ga: "get_all (fs1 @ [f] @ fs2) 1 (Some 2) =
              get_all fs1 1 (Some 2) @ [f] @ get_all fs2 1 (Some 2)"
    using f by (simp add: get_all_append)
  have "parse_list_systems_response (pre @ entry @ post) =
          list_systems_loop (get_all fs1 1 (Some 2) @ [f] @ get_all fs2 1 (Some 2)) []"
    unfolding parse_list_systems_response_def
    using decode_message_append3(1) [OF pre mid post] ga by simp
  also have "\<dots> = bindE (list_systems_loop (get_all fs1 1 (Some 2)) []) (\<lambda>a.
                     bindE (list_systems_loop (get_all fs2 1 (Some 2)) []) (\<lambda>b.
                       Inr (a @ (case r of None \<Rightarrow> [] | Some i \<Rightarrow> [i]) @ b)))"
  proof (cases "list_systems_loop (get_all fs1 1 (Some 2)) []")
    case (Inl err)
    then show ?thesis by (simp add: list_systems_loop_append)
  next
    case (Inr a)
    show ?thesis
    proof (cases r)
      case None
      with Inr e show ?thesis
        by (simp add: list_systems_loop_append)
           (subst list_systems_loop_acc, simp)
    next
      case (Some i)
      with Inr e show ?thesis
        by (simp add: list_systems_loop_append)
           (subst list_systems_loop_acc, simp)
    qed
  qed
  finally show ?thesis
    unfolding parse_list_systems_response_def using pre post by simp
qed

lemma parse_list_systems_concat:
  assumes pre: "decode_message pre = Inr fs1"
      and post: "decode_message post = Inr fs2"
  shows "parse_list_systems_response (pre @ post) =
           bindE (parse_list_systems_response pre) (\<lambda>a.
           bindE (parse_list_systems_response post) (\<lambda>b. Inr (a @ b)))"
proof -
  have "parse_list_systems_response (pre @ post) =
          list_systems_loop (get_all fs1 1 (Some 2) @ get_all fs2 1 (Some 2)) []"
    unfolding parse_list_systems_response_def
    using decode_message_append [OF pre, of post] post by (simp add: get_all_append)
  also have "\<dots> = bindE (list_systems_loop (get_all fs1 1 (Some 2)) []) (\<lambda>a.
                     bindE (list_systems_loop (get_all fs2 1 (Some 2)) []) (\<lambda>b. Inr (a @ b)))"
    by (cases "list_systems_loop (get_all fs1 1 (Some 2)) []")
       (simp_all add: list_systems_loop_append, subst list_systems_loop_acc, simp)
  finally show ?thesis
    unfolding parse_list_systems_response_def using pre post by simp
qed


text \<open>
  Claim C9. Take a response made of any bytes \<open>pre\<close> that decode, one entry (a
  length-delimited field 1 whose payload decodes to \<open>msg\<close>) and any bytes \<open>post\<close> that
  decode. If the entry has no id field it is skipped: the result is that of the response
  without it. If it has an id and no name field, its name is the id; if it has no timezone
  field, its timezone is the empty string; in both cases the entries before and after it are
  returned around it, in order.
\<close>

theorem parse_list_systems_response_defaults:
  assumes pre: "decode_message pre = Inr fs1"
      and mid: "decode_message entry = Inr [f]"
      and post: "decode_message post = Inr fs2"
      and f: "number f = 1" "wire_type f = 2" "pvalue f = VBytes raw"
      and msg: "decode_message raw = Inr msg"
  shows "(get_first msg 1 (Some 2) = None \<longrightarrow>
            parse_list_systems_response (pre @ entry @ post) =
              parse_list_systems_response (pre @ post))
       \<and> (get_first msg 1 (Some 2) = Some sid \<and> value_str sid = Inr s
            \<and> get_first msg 2 (Some 2) = None
            \<and> (case get_first msg 3 (Some 2) of None \<Rightarrow> Inr [] | Some t \<Rightarrow> value_str t) = Inr tz \<longrightarrow>
            parse_list_systems_response (pre @ entry @ post) =
              bindE (parse_list_systems_response pre) (\<lambda>a.
              bindE (parse_list_systems_response post) (\<lambda>b.
                Inr (a @ [\<lparr>sys_system_id = s, sys_name = s, sys_timezone = tz\<rparr>] @ b))))
       \<and> (get_first msg 1 (Some 2) = Some sid \<and> value_str sid = Inr s
            \<and> (case get_first msg 2 (Some 2) of None \<Rightarrow> Inr s | Some n \<Rightarrow> value_str n) = Inr nm
            \<and> get_first msg 3 (Some 2) = None \<longrightarrow>
            parse_list_systems_response (pre @ entry @ post) =
              bindE (parse_list_systems_response pre) (\<lambda>a.
              bindE (parse_list_systems_response post) (\<lambda>b.
                Inr (a @ [\<lparr>sys_system_id = s, sys_name = nm, sys_timezone = []\<rparr>] @ b))))"
proof -
  note ins = parse_list_systems_insert [OF pre mid post f(1,2)]
  have a: "get_first msg 1 (Some 2) = None \<longrightarrow>
            parse_list_systems_response (pre @ entry @ post) =
              parse_list_systems_response (pre @ post)"
  proof
    assume "get_first msg 1 (Some 2) = None"
    then have "list_systems_entry f = Inr None"
      using f(3) msg by (simp add: list_systems_entry_def value_bytes_def)
    from ins [OF this] show "parse_list_systems_response (pre @ entry @ post) =
              parse_list_systems_response (pre @ post)"
      by (simp add: parse_list_systems_concat [OF pre post])
  qed
  have b: "get_first msg 1 (Some 2) = Some sid \<and> value_str sid = Inr s
            \<and> get_first msg 2 (Some 2) = None
            \<and> (case get_first msg 3 (Some 2) of None \<Rightarrow> Inr [] | Some t \<Rightarrow> value_str t) = Inr tz \<longrightarrow>
            parse_list_systems_response (pre @ entry @ post) =
              bindE (parse_list_systems_response pre) (\<lambda>a.
              bindE (parse_list_systems_response post) (\<lambda>b.
                Inr (a @ [\<lparr>sys_system_id = s, sys_name = s, sys_timezone = tz\<rparr>] @ b)))"
  proof
    assume h: "get_first msg 1 (Some 2) = Some sid \<and> value_str sid = Inr s
            \<and> get_first msg 2 (Some 2) = None
            \<and> (case get_first msg 3 (Some 2) of None \<Rightarrow> Inr [] | Some t \<Rightarrow> value_str t) = Inr tz"
    then have "list_systems_entry f =
                 Inr (Some \<lparr>sys_system_id = s, sys_name = s, sys_timezone = tz\<rparr>)"
      using f(3) msg by (simp add: list_systems_entry_def value_bytes_def)
    from ins [OF this] show "parse_list_systems_response (pre @ entry @ post) =
              bindE (parse_list_systems_response pre) (\<lambda>a.
              bindE (parse_list_systems_response post) (\<lambda>b.
                Inr (a @ [\<lparr>sys_system_id = s, sys_name = s, sys_timezone = tz\<rparr>] @ b)))"
      by simp
  qed
  have c: "get_first msg 1 (Some 2) = Some sid \<and> value_str sid = Inr s
            \<and> (case get_first msg 2 (Some 2) of None \<Rightarrow> Inr s | Some n \<Rightarrow> value_str n) = Inr nm
            \<and> get_first msg 3 (Some 2) = None \<longrightarrow>
            parse_list_systems_response (pre @ entry @ post) =
              bindE (parse_list_systems_response pre) (\<lambda>a.
              bindE (parse_list_systems_response post) (\<lambda>b.
                Inr (a @ [\<lparr>sys_system_id = s, sys_name = nm, sys_timezone = []\<rparr>] @ b)))"
  proof
    assume h: "get_first msg 1 (Some 2) = Some sid \<and> value_str sid = Inr s
            \<and> (case get_first msg 2 (Some 2) of None \<Rightarrow> Inr s | Some n \<Rightarrow> value_str n) = Inr nm
            \<and> get_first msg 3 (Some 2) = None"
    then have "list_systems_entry f =
                 Inr (Some \<lparr>sys_system_id = s, sys_name = nm, sys_timezone = []\<rparr>)"
      using f(3) msg by (auto simp: list_systems_entry_def value_bytes_def split: option.splits)
    from ins [OF this] show "parse_list_systems_response (pre @ entry @ post) =
              bindE (parse_list_systems_response pre) (\<lambda>a.
              bindE (parse_list_systems_response post) (\<lambda>b.
                Inr (a @ [\<lparr>sys_system_id = s, sys_name = nm, sys_timezone = []\<rparr>] @ b)))"
      by simp
  qed
  from a b c show ?thesis by (intro conjI)
qed


theorem parse_list_systems_response_defaults_witness:
  "parse_list_systems_response
     ([0x0a, 0x03, 0x0a, 0x01, 0x61] @ [0x0a, 0x03, 0x12, 0x01, 0x6e]
        @ [0x0a, 0x09, 0x0a, 0x01, 0x62, 0x12, 0x01, 0x6e, 0x1a, 0x01, 0x7a]) =
     Inr [\<lparr>sys_system_id = [0x61], sys_name = [0x61], sys_timezone = []\<rparr>,
          \<lparr>sys_system_id = [0x62], sys_name = [0x6e], sys_timezone = [0x7a]\<rparr>]
   \<and> parse_list_systems_response
     ([0x0a, 0x03, 0x0a, 0x01, 0x61] @ [0x0a, 0x03, 0x0a, 0x01, 0x63]
        @ [0x0a, 0x09, 0x0a, 0x01, 0x62, 0x12, 0x01, 0x6e, 0x1a, 0x01, 0x7a]) =
     Inr [\<lparr>sys_system_id = [0x61], sys_name = [0x61], sys_timezone = []\<rparr>,
          \<lparr>sys_system_id = [0x63], sys_name = [0x63], sys_timezone = []\<rparr>,
          \<lparr>sys_system_id = [0x62], sys_name = [0x6e], sys_timezone = [0x7a]\<rparr>]"
proof -
  let ?pre = "[0x0a, 0x03, 0x0a, 0x01, 0x61] :: bytes"
  let ?post = "[0x0a, 0x09, 0x0a, 0x01, 0x62, 0x12, 0x01, 0x6e, 0x1a, 0x01, 0x7a] :: bytes"
  let ?e1 = "[0x0a, 0x03, 0x12, 0x01, 0x6e] :: bytes"
  let ?e2 = "[0x0a, 0x03, 0x0a, 0x01, 0x63] :: bytes"
  have pre: "decode_message ?pre = Inr [ProtoField 1 2 (VBytes [0x0a, 0x01, 0x61])]"
    by code_simp
  have post: "decode_message ?post =
      Inr [ProtoField 1 2 (VBytes [0x0a, 0x01, 0x62, 0x12, 0x01, 0x6e, 0x1a, 0x01, 0x7a])]"
    by code_simp
  have e1: "decode_message ?e1 = Inr [ProtoField 1 2 (VBytes [0x12, 0x01, 0x6e])]"
    by code_simp
  have e2: "decode_message ?e2 = Inr [ProtoField 1 2 (VBytes [0x0a, 0x01, 0x63])]"
    by code_simp
  have m1: "decode_message [0x12, 0x01, 0x6e] = Inr [ProtoField 2 2 (VBytes [0x6e])]"
    by code_simp
  have m2: "decode_message [0x0a, 0x01, 0x63] = Inr [ProtoField 1 2 (VBytes [0x63])]"
    by code_simp
  have s2: "value_str (ProtoField 1 2 (VBytes [0x63])) = Inr [0x63]"
    by code_simp
  have ppre: "parse_list_systems_response ?pre =
      Inr [\<lparr>sys_system_id = [0x61], sys_name = [0x61], sys_timezone = []\<rparr>]"
    by code_simp
  have ppost: "parse_list_systems_response ?post =
      Inr [\<lparr>sys_system_id = [0x62], sys_name = [0x6e], sys_timezone = [0x7a]\<rparr>]"
    by code_simp
  have both: "parse_list_systems_response (?pre @ ?post) =
      Inr [\<lparr>sys_system_id = [0x61], sys_name = [0x61], sys_timezone = []\<rparr>,
           \<lparr>sys_system_id = [0x62], sys_name = [0x6e], sys_timezone = [0x7a]\<rparr>]"
    by code_simp
  have a: "parse_list_systems_response (?pre @ ?e1 @ ?post) =
      Inr [\<lparr>sys_system_id = [0x61], sys_name = [0x61], sys_timezone = []\<rparr>,
           \<lparr>sys_system_id = [0x62], sys_name = [0x6e], sys_timezone = [0x7a]\<rparr>]"
    using parse_list_systems_response_defaults [OF pre e1 post _ _ _ m1] both by simp
  have b: "parse_list_systems_response (?pre @ ?e2 @ ?post) =
      Inr [\<lparr>sys_system_id = [0x61], sys_name = [0x61], sys_timezone = []\<rparr>,
           \<lparr>sys_system_id = [0x63], sys_name = [0x63], sys_timezone = []\<rparr>,
           \<lparr>sys_system_id = [0x62], sys_name = [0x6e], sys_timezone = [0x7a]\<rparr>]"
    using parse_list_systems_response_defaults
            [OF pre e2 post _ _ _ m2, where sid = "ProtoField 1 2 (VBytes [0x63])"
               and s = "[0x63]" and tz = "[]" and nm = "[0x63]"]
          s2 ppre ppost by simp
  from a b show ?thesis by simp
qed

lemma is_nan_zero [simp]: "\<not> is_nan (Float64 0)"
  by (simp add: is_nan_def)

lemma energy_bucket_not_nan:
  "energy_bucket b = Inr (Some bk) \<Longrightarrow> \<not> is_nan (energy_usage_kwh bk)"
  unfolding energy_bucket_def Let_def
  by (auto simp: bindE_eq_Inr split: if_splits)

lemma energy_buckets_loop_inv:
  "energy_buckets_loop bs acc = Inr r \<Longrightarrow> bk \<in> set r \<Longrightarrow>
     bk \<in> set acc \<or> (\<exists>b \<in> set bs. energy_bucket b = Inr (Some bk))"
proof (induction bs arbitrary: acc)
  case Nil
  then show ?case by simp
next
  case (Cons b bs)
  show ?case
  proof (cases "energy_bucket b")
    case (Inl e)
    with Cons.prems show ?thesis by simp
  next
    case (Inr x)
    show ?thesis
    proof (cases x)
      case None
      with Inr Cons.prems Cons.IH [of acc] show ?thesis by auto
    next
      case (Some y)
      with Inr Cons.prems Cons.IH [of "acc @ [y]"] show ?thesis by auto
    qed
  qed
qed

lemma energy_metrics_loop_inv:
  "energy_metrics_loop fs acc = Inr r \<Longrightarrow> m \<in> set r \<Longrightarrow>
     m \<in> set acc \<or> (\<exists>f \<in> set fs. space_energy_metrics f = Inr (Some m))"
proof (induction fs arbitrary: acc)
  case Nil
  then show ?case by simp
next
  case (Cons f fs)
  show ?case
  proof (cases "space_energy_metrics f")
    case (Inl e)
    with Cons.prems show ?thesis by simp
  next
    case (Inr x)
    show ?thesis
    proof (cases x)
      case None
      with Inr Cons.prems Cons.IH [of acc] show ?thesis by auto
    next
      case (Some y)
      with Inr Cons.prems Cons.IH [of "acc @ [y]"] show ?thesis by auto
    qed
  qed
qed

lemma bindE_assoc: "bindE (bindE m f) g = bindE m (\<lambda>x. bindE (f x) g)"
  by (cases m) simp_all

lemma get_first_append:
  "get_first (xs @ ys) n wt =
     (case get_first xs n wt of Some f \<Rightarrow> Some f | None \<Rightarrow> get_first ys n wt)"
  by (induction xs) simp_all

lemma get_first_skip:
  "number b \<noteq> n \<Longrightarrow> get_first (xs @ [b] @ ys) n wt = get_first (xs @ ys) n wt"
  by (simp add: get_first_append split: option.splits)

lemma energy_buckets_loop_acc:
  "energy_buckets_loop xs out = bindE (energy_buckets_loop xs []) (\<lambda>r. Inr (out @ r))"
proof (induction xs arbitrary: out)
  case Nil
  show ?case by simp
next
  case (Cons f fs)
  show ?case
  proof (cases "energy_bucket f")
    case (Inl e)
    then show ?thesis by simp
  next
    case (Inr r)
    show ?thesis
    proof (cases r)
      case None
      with Inr Cons [of out] show ?thesis by simp
    next
      case (Some info)
      have "energy_buckets_loop (f # fs) out = energy_buckets_loop fs (out @ [info])"
        using Inr Some by simp
      also have "\<dots> = bindE (energy_buckets_loop fs []) (\<lambda>r. Inr ((out @ [info]) @ r))"
        by (rule Cons)
      also have "\<dots> = bindE (energy_buckets_loop fs [info]) (\<lambda>r. Inr (out @ r))"
        by (subst (2) Cons) (cases "energy_buckets_loop fs []", simp_all)
      also have "energy_buckets_loop fs [info] = energy_buckets_loop (f # fs) []"
        using Inr Some by simp
      finally show ?thesis .
    qed
  qed
qed

lemma energy_buckets_loop_append:
  "energy_buckets_loop (xs @ ys) out = bindE (energy_buckets_loop xs out) (energy_buckets_loop ys)"
  by (induction xs arbitrary: out) (simp_all split: sum.splits option.splits)

lemma energy_buckets_loop_insert:
  assumes "energy_bucket b = Inr r"
  shows "energy_buckets_loop (xs @ [b] @ ys) [] =
           bindE (energy_buckets_loop xs []) (\<lambda>x.
           bindE (energy_buckets_loop ys []) (\<lambda>y.
             Inr (x @ (case r of None \<Rightarrow> [] | Some bk \<Rightarrow> [bk]) @ y)))"
proof (cases "energy_buckets_loop xs []")
  case (Inl e)
  then show ?thesis by (simp add: energy_buckets_loop_append)
next
  case (Inr x)
  show ?thesis
  proof (cases r)
    case None
    with Inr assms show ?thesis
      by (simp add: energy_buckets_loop_append) (subst energy_buckets_loop_acc, simp)
  next
    case (Some bk)
    with Inr assms show ?thesis
      by (simp add: energy_buckets_loop_append) (subst energy_buckets_loop_acc, simp)
  qed
qed

lemma energy_metrics_loop_acc:
  "energy_metrics_loop xs out = bindE (energy_metrics_loop xs []) (\<lambda>r. Inr (out @ r))"
proof (induction xs arbitrary: out)
  case Nil
  show ?case by simp
next
  case (Cons f fs)
  show ?case
  proof (cases "space_energy_metrics f")
    case (Inl e)
    then show ?thesis by simp
  next
    case (Inr r)
    show ?thesis
    proof (cases r)
      case None
      with Inr Cons [of out] show ?thesis by simp
    next
      case (Some info)
      have "energy_metrics_loop (f # fs) out = energy_metrics_loop fs (out @ [info])"
        using Inr Some by simp
      also have "\<dots> = bindE (energy_metrics_loop fs []) (\<lambda>r. Inr ((out @ [info]) @ r))"
        by (rule Cons)
      also have "\<dots> = bindE (energy_metrics_loop fs [info]) (\<lambda>r. Inr (out @ r))"
        by (subst (2) Cons) (cases "energy_metrics_loop fs []", simp_all)
      also have "energy_metrics_loop fs [info] = energy_metrics_loop (f # fs) []"
        using Inr Some by simp
      finally show ?thesis .
    qed
  qed
qed

lemma energy_metrics_loop_append:
  "energy_metrics_loop (xs @ ys) out = bindE (energy_metrics_loop xs out) (energy_metrics_loop ys)"
  by (induction xs arbitrary: out) (simp_all split: sum.splits option.splits)

lemma energy_metrics_loop_insert:
  "energy_metrics_loop (xs @ [f] @ ys) [] =
           bindE (energy_metrics_loop xs []) (\<lambda>a.
           bindE (space_energy_metrics f) (\<lambda>r.
           bindE (energy_metrics_loop ys []) (\<lambda>c.
             Inr (a @ (case r of None \<Rightarrow> [] | Some m \<Rightarrow> [m]) @ c))))"
proof (cases "energy_metrics_loop xs []")
  case (Inl e)
  then show ?thesis by (simp add: energy_metrics_loop_append)
next
  case (Inr x)
  show ?thesis
  proof (cases "space_energy_metrics f")
    case (Inl e)
    with Inr show ?thesis by (simp add: energy_metrics_loop_append)
  next
    case r: (Inr r)
    show ?thesis
    proof (cases r)
      case None
      with Inr r show ?thesis
        by (simp add: energy_metrics_loop_append) (subst energy_metrics_loop_acc, simp)
    next
      case (Some bk)
      with Inr r show ?thesis
        by (simp add: energy_metrics_loop_append) (subst energy_metrics_loop_acc, simp)
    qed
  qed
qed

lemma parse_energy_metrics_insert:
  assumes pre: "decode_message pre = Inr fs1"
      and mid: "decode_message entry = Inr [f]"
      and post: "decode_message post = Inr fs2"
      and f: "number f = 1" "wire_type f = 2"
  shows "parse_get_energy_metrics_response (pre @ entry @ post) =
           bindE (parse_get_energy_metrics_response pre) (\<lambda>a.
           bindE (space_energy_metrics f) (\<lambda>r.
           bindE (parse_get_energy_metrics_response post) (\<lambda>c.
             Inr (a @ (case r of None \<Rightarrow> [] | Some m \<Rightarrow> [m]) @ c))))"
proof -
  have ga: "get_all (fs1 @ [f] @ fs2) 1 (Some 2) =
              get_all fs1 1 (Some 2) @ [f] @ get_all fs2 1 (Some 2)"
    using f by (simp add: get_all_append)
  have "parse_get_energy_metrics_response (pre @ entry @ post) =
          energy_metrics_loop (get_all fs1 1 (Some 2) @ [f] @ get_all fs2 1 (Some 2)) []"
    unfolding parse_get_energy_metrics_response_def
    using decode_message_append3(1) [OF pre mid post] ga by simp
  then show ?thesis
    unfolding energy_metrics_loop_insert
    unfolding parse_get_energy_metrics_response_def using pre post by simp
qed

lemma space_energy_metrics_insert:
  assumes f: "pvalue f = VBytes (bpre @ bucket @ bpost)"
      and bpre: "decode_message bpre = Inr gs1"
      and bmid: "decode_message bucket = Inr [b]"
      and bpost: "decode_message bpost = Inr gs2"
      and b: "number b = 3" "wire_type b = 2"
      and sid: "get_first (gs1 @ gs2) 1 (Some 2) = Some sidf" "value_str sidf = Inr s"
      and res: "on_present value_int (get_first (gs1 @ gs2) 2 (Some 0)) = Inr res"
      and r: "energy_bucket b = Inr r"
  shows "space_energy_metrics f =
           bindE (energy_buckets_loop (get_all gs1 3 (Some 2)) []) (\<lambda>x.
           bindE (energy_buckets_loop (get_all gs2 3 (Some 2)) []) (\<lambda>y.
             Inr (Some \<lparr>em_space_id = s, bucket_time_resolution = res,
                         energy_buckets = x @ (case r of None \<Rightarrow> [] | Some bk \<Rightarrow> [bk]) @ y\<rparr>)))"
proof -
  have d: "decode_message (bpre @ bucket @ bpost) = Inr (gs1 @ [b] @ gs2)"
    by (rule decode_message_append3(1) [OF bpre bmid bpost])
  have ga: "get_all (gs1 @ [b] @ gs2) 3 (Some 2) =
              get_all gs1 3 (Some 2) @ [b] @ get_all gs2 3 (Some 2)"
    using b by (simp add: get_all_append)
  have g1: "get_first (gs1 @ [b] @ gs2) 1 (Some 2) = Some sidf"
    using get_first_skip [of b 1 gs1 gs2 "Some 2"] b sid by simp
  have g2: "get_first (gs1 @ [b] @ gs2) 2 (Some 0) = get_first (gs1 @ gs2) 2 (Some 0)"
    using get_first_skip [of b 2 gs1 gs2 "Some 0"] b by simp
  show ?thesis
    unfolding space_energy_metrics_def
    using f d g1 g2 sid res
    apply (simp add: value_bytes_def ga [simplified] energy_buckets_loop_insert [OF r, simplified])
    apply (simp add: bindE_assoc)
    done
qed

lemma parse_energy_metrics_bucket_insert:
  assumes pre: "decode_message pre = Inr fs1"
      and mid: "decode_message entry = Inr [f]"
      and post: "decode_message post = Inr fs2"
      and f: "number f = 1" "wire_type f = 2" "pvalue f = VBytes (bpre @ bucket @ bpost)"
      and bpre: "decode_message bpre = Inr gs1"
      and bmid: "decode_message bucket = Inr [b]"
      and bpost: "decode_message bpost = Inr gs2"
      and b: "number b = 3" "wire_type b = 2"
      and sid: "get_first (gs1 @ gs2) 1 (Some 2) = Some sidf" "value_str sidf = Inr s"
      and res: "on_present value_int (get_first (gs1 @ gs2) 2 (Some 0)) = Inr res"
      and r: "energy_bucket b = Inr (Some bk)"
  shows "parse_get_energy_metrics_response (pre @ entry @ post) =
           bindE (parse_get_energy_metrics_response pre) (\<lambda>a.
           bindE (energy_buckets_loop (get_all gs1 3 (Some 2)) []) (\<lambda>x.
           bindE (energy_buckets_loop (get_all gs2 3 (Some 2)) []) (\<lambda>y.
           bindE (parse_get_energy_metrics_response post) (\<lambda>c.
             Inr (a @ [\<lparr>em_space_id = s, bucket_time_resolution = res,
                         energy_buckets = x @ [bk] @ y\<rparr>] @ c)))))"
  unfolding parse_energy_metrics_insert [OF pre mid post f(1,2)]
    space_energy_metrics_insert [OF f(3) bpre bmid bpost b sid res r]
  by (simp add: bindE_assoc)

lemma parse_timestamp_seconds_only:
  assumes "decode_message tsraw = Inr tflds"
      and "get_first tflds 1 (Some 0) = Some sec" and "pvalue sec = VInt secs"
      and "get_first tflds 2 (Some 0) = None"
  shows "parse_timestamp tsraw = Inr (Some \<lparr>seconds = secs, nanos = 0\<rparr>)"
  using assms by (simp add: parse_timestamp_def value_int_def)

lemma space_energy_metrics_source:
  "space_energy_metrics f = Inr (Some m) \<Longrightarrow> bk \<in> set (energy_buckets m) \<Longrightarrow>
     \<exists>fraw flds b. pvalue f = VBytes fraw \<and> decode_message fraw = Inr flds
        \<and> b \<in> set (get_all flds 3 (Some 2)) \<and> energy_bucket b = Inr (Some bk)"
  unfolding space_energy_metrics_def value_bytes_def
  by (cases "pvalue f")
     (auto simp: bindE_eq_Inr split: option.splits dest!: energy_buckets_loop_inv)

lemma parse_energy_metrics_source:
  assumes "parse_get_energy_metrics_response data = Inr out"
      and "m \<in> set out" and "bk \<in> set (energy_buckets m)"
  shows "\<exists>top_fields f fraw flds b. decode_message data = Inr top_fields
           \<and> f \<in> set (get_all top_fields 1 (Some 2))
           \<and> pvalue f = VBytes fraw \<and> decode_message fraw = Inr flds
           \<and> b \<in> set (get_all flds 3 (Some 2)) \<and> energy_bucket b = Inr (Some bk)"
proof -
  from assms(1) obtain top_fields where
    d: "decode_message data = Inr top_fields" and
    "energy_metrics_loop (get_all top_fields 1 (Some 2)) [] = Inr out"
    unfolding parse_get_energy_metrics_response_def by (auto simp: bindE_eq_Inr)
  from energy_metrics_loop_inv [OF this(2) assms(2)]
  obtain f where f: "f \<in> set (get_all top_fields 1 (Some 2))"
    and "space_energy_metrics f = Inr (Some m)" by auto
  from space_energy_metrics_source [OF this(2) assms(3)] d f show ?thesis by blast
qed

text \<open>
  Claim C6. Take a response made of any bytes \<open>pre\<close> that decode, one space entry (a
  length-delimited field 1) and any bytes \<open>post\<close> that decode, where the payload of the entry
  is made of bytes \<open>bpre\<close> that decode, one bucket (a length-delimited field 3 whose payload
  decodes to \<open>b_fields\<close>) and bytes \<open>bpost\<close> that decode, and where the entry has a space id.
  If the timestamp of the bucket parses and its energy field (fixed64, or fixed32 when there
  is no fixed64 field 3) holds a NaN pattern, \<open>parse_get_energy_metrics_response\<close> returns
  the bucket with \<open>energy_usage_kwh\<close> equal to \<open>0.0\<close>, between the buckets of \<open>bpre\<close> and those
  of \<open>bpost\<close>, in the metrics of this space, between the results of \<open>pre\<close> and \<open>post\<close>. If the
  start-time sub-message has a seconds field and no nanos field, the bucket is returned at
  that place with these seconds and \<open>nanos\<close> equal to 0; and whenever the bucket is returned
  and its start-time sub-message has no varint field 2, its \<open>nanos\<close> is 0. In the result of
  \<open>parse_get_energy_metrics_response\<close> on any input, no bucket has a NaN energy, and every
  bucket is the result of the loop body on a bucket field of a space entry of the response.
\<close>

theorem energy_metrics_nan_and_nanos:
  assumes pre: "decode_message pre = Inr fs1"
      and mid: "decode_message entry = Inr [f]"
      and post: "decode_message post = Inr fs2"
      and f: "number f = 1" "wire_type f = 2" "pvalue f = VBytes (bpre @ bucket @ bpost)"
      and bpre: "decode_message bpre = Inr gs1"
      and bmid: "decode_message bucket = Inr [b]"
      and bpost: "decode_message bpost = Inr gs2"
      and b: "number b = 3" "wire_type b = 2" "pvalue b = VBytes raw"
      and dec: "decode_message raw = Inr b_fields"
      and sid: "get_first (gs1 @ gs2) 1 (Some 2) = Some sidf" "value_str sidf = Inr s"
      and res: "on_present value_int (get_first (gs1 @ gs2) 2 (Some 0)) = Inr res"
  shows "(timestamp_of (get_first b_fields 1 (Some 2)) = Inr (Some ts)
            \<and> on_present value_int (get_first b_fields 2 (Some 0)) = Inr st
            \<and> get_first b_fields 3 (Some 1) = Some ef \<and> pvalue ef = VBytes eb \<and> length eb = 8
            \<and> is_nan (Float64 (word_rcat (rev eb))) \<longrightarrow>
          parse_get_energy_metrics_response (pre @ entry @ post) =
            bindE (parse_get_energy_metrics_response pre) (\<lambda>a.
            bindE (energy_buckets_loop (get_all gs1 3 (Some 2)) []) (\<lambda>x.
            bindE (energy_buckets_loop (get_all gs2 3 (Some 2)) []) (\<lambda>y.
            bindE (parse_get_energy_metrics_response post) (\<lambda>c.
              Inr (a @ [\<lparr>em_space_id = s, bucket_time_resolution = res,
                          energy_buckets =
                            x @ [\<lparr>start_time = ts, status = st, energy_usage_kwh = Float64 0\<rparr>] @ y\<rparr>]
                     @ c))))))
       \<and> (timestamp_of (get_first b_fields 1 (Some 2)) = Inr (Some ts)
            \<and> on_present value_int (get_first b_fields 2 (Some 0)) = Inr st
            \<and> get_first b_fields 3 (Some 1) = None
            \<and> get_first b_fields 3 (Some 5) = Some ef \<and> pvalue ef = VBytes eb \<and> length eb = 4
            \<and> is_nan (Float32 (word_rcat (rev eb))) \<longrightarrow>
          parse_get_energy_metrics_response (pre @ entry @ post) =
            bindE (parse_get_energy_metrics_response pre) (\<lambda>a.
            bindE (energy_buckets_loop (get_all gs1 3 (Some 2)) []) (\<lambda>x.
            bindE (energy_buckets_loop (get_all gs2 3 (Some 2)) []) (\<lambda>y.
            bindE (parse_get_energy_metrics_response post) (\<lambda>c.
              Inr (a @ [\<lparr>em_space_id = s, bucket_time_resolution = res,
                          energy_buckets =
                            x @ [\<lparr>start_time = ts, status = st, energy_usage_kwh = Float64 0\<rparr>] @ y\<rparr>]
                     @ c))))))
       \<and> (get_first b_fields 1 (Some 2) = Some tsf \<and> pvalue tsf = VBytes tsraw
            \<and> decode_message tsraw = Inr tflds
            \<and> get_first tflds 1 (Some 0) = Some sec \<and> pvalue sec = VInt secs
            \<and> get_first tflds 2 (Some 0) = None
            \<and> on_present value_int (get_first b_fields 2 (Some 0)) = Inr st
            \<and> get_first b_fields 3 (Some 1) = Some ef \<and> pvalue ef = VBytes eb \<and> length eb = 8
            \<and> \<not> is_nan (Float64 (word_rcat (rev eb))) \<longrightarrow>
          parse_get_energy_metrics_response (pre @ entry @ post) =
            bindE (parse_get_energy_metrics_response pre) (\<lambda>a.
            bindE (energy_buckets_loop (get_all gs1 3 (Some 2)) []) (\<lambda>x.
            bindE (energy_buckets_loop (get_all gs2 3 (Some 2)) []) (\<lambda>y.
            bindE (parse_get_energy_metrics_response post) (\<lambda>c.
              Inr (a @ [\<lparr>em_space_id = s, bucket_time_resolution = res,
                          energy_buckets =
                            x @ [\<lparr>start_time = \<lparr>seconds = secs, nanos = 0\<rparr>, status = st,
                                   energy_usage_kwh = Float64 (word_rcat (rev eb))\<rparr>] @ y\<rparr>]
                     @ c))))))
       \<and> (energy_bucket b = Inr (Some bk)
            \<and> get_first b_fields 1 (Some 2) = Some tsf \<and> value_bytes tsf = Inr tsraw
            \<and> decode_message tsraw = Inr tflds \<and> get_first tflds 2 (Some 0) = None \<longrightarrow>
          nanos (start_time bk) = 0
          \<and> parse_get_energy_metrics_response (pre @ entry @ post) =
            bindE (parse_get_energy_metrics_response pre) (\<lambda>a.
            bindE (energy_buckets_loop (get_all gs1 3 (Some 2)) []) (\<lambda>x.
            bindE (energy_buckets_loop (get_all gs2 3 (Some 2)) []) (\<lambda>y.
            bindE (parse_get_energy_metrics_response post) (\<lambda>c.
              Inr (a @ [\<lparr>em_space_id = s, bucket_time_resolution = res,
                          energy_buckets = x @ [bk] @ y\<rparr>] @ c))))))
       \<and> (parse_get_energy_metrics_response data = Inr out \<and> m \<in> set out
            \<and> bk' \<in> set (energy_buckets m) \<longrightarrow>
          \<not> is_nan (energy_usage_kwh bk')
          \<and> (\<exists>top_fields f' fraw flds b'. decode_message data = Inr top_fields
                \<and> f' \<in> set (get_all top_fields 1 (Some 2))
                \<and> pvalue f' = VBytes fraw \<and> decode_message fraw = Inr flds
                \<and> b' \<in> set (get_all flds 3 (Some 2)) \<and> energy_bucket b' = Inr (Some bk')))"
proof -
  note ins = parse_energy_metrics_bucket_insert [OF pre mid post f bpre bmid bpost b(1,2) sid res]
  have raw: "value_bytes b = Inr raw" using b(3) by (simp add: value_bytes_def)
  have c1: "timestamp_of (get_first b_fields 1 (Some 2)) = Inr (Some ts)
            \<and> on_present value_int (get_first b_fields 2 (Some 0)) = Inr st
            \<and> get_first b_fields 3 (Some 1) = Some ef \<and> pvalue ef = VBytes eb \<and> length eb = 8
            \<and> is_nan (Float64 (word_rcat (rev eb))) \<longrightarrow>
          energy_bucket b =
            Inr (Some \<lparr>start_time = ts, status = st, energy_usage_kwh = Float64 0\<rparr>)"
  proof (intro impI, elim conjE)
    assume h: "timestamp_of (get_first b_fields 1 (Some 2)) = Inr (Some ts)"
      "on_present value_int (get_first b_fields 2 (Some 0)) = Inr st"
      "get_first b_fields 3 (Some 1) = Some ef" "pvalue ef = VBytes eb" "length eb = 8"
      "is_nan (Float64 (word_rcat (rev eb)))"
    from get_first_Some [OF h(3)] have wt: "wire_type ef = 1" by simp
    show "energy_bucket b =
            Inr (Some \<lparr>start_time = ts, status = st, energy_usage_kwh = Float64 0\<rparr>)"
      unfolding energy_bucket_def Let_def
      using raw dec h wt by (simp add: value_bytes_def fixed64_to_double_def)
  qed
  have c2: "timestamp_of (get_first b_fields 1 (Some 2)) = Inr (Some ts)
            \<and> on_present value_int (get_first b_fields 2 (Some 0)) = Inr st
            \<and> get_first b_fields 3 (Some 1) = None
            \<and> get_first b_fields 3 (Some 5) = Some ef \<and> pvalue ef = VBytes eb \<and> length eb = 4
            \<and> is_nan (Float32 (word_rcat (rev eb))) \<longrightarrow>
          energy_bucket b =
            Inr (Some \<lparr>start_time = ts, status = st, energy_usage_kwh = Float64 0\<rparr>)"
  proof (intro impI, elim conjE)
    assume h: "timestamp_of (get_first b_fields 1 (Some 2)) = Inr (Some ts)"
      "on_present value_int (get_first b_fields 2 (Some 0)) = Inr st"
      "get_first b_fields 3 (Some 1) = None"
      "get_first b_fields 3 (Some 5) = Some ef" "pvalue ef = VBytes eb" "length eb = 4"
      "is_nan (Float32 (word_rcat (rev eb)))"
    from get_first_Some [OF h(4)] have wt: "wire_type ef = 5" by simp
    show "energy_bucket b =
            Inr (Some \<lparr>start_time = ts, status = st, energy_usage_kwh = Float64 0\<rparr>)"
      unfolding energy_bucket_def Let_def
      using raw dec h wt by (simp add: value_bytes_def fixed32_to_float_def)
  qed
  have c3: "get_first b_fields 1 (Some 2) = Some tsf \<and> pvalue tsf = VBytes tsraw
            \<and> decode_message tsraw = Inr tflds
            \<and> get_first tflds 1 (Some 0) = Some sec \<and> pvalue sec = VInt secs
            \<and> get_first tflds 2 (Some 0) = None
            \<and> on_present value_int (get_first b_fields 2 (Some 0)) = Inr st
            \<and> get_first b_fields 3 (Some 1) = Some ef \<and> pvalue ef = VBytes eb \<and> length eb = 8
            \<and> \<not> is_nan (Float64 (word_rcat (rev eb))) \<longrightarrow>
          energy_bucket b =
            Inr (Some \<lparr>start_time = \<lparr>seconds = secs, nanos = 0\<rparr>, status = st,
                        energy_usage_kwh = Float64 (word_rcat (rev eb))\<rparr>)"
  proof (intro impI, elim conjE)
    assume h: "get_first b_fields 1 (Some 2) = Some tsf" "pvalue tsf = VBytes tsraw"
      "decode_message tsraw = Inr tflds"
      "get_first tflds 1 (Some 0) = Some sec" "pvalue sec = VInt secs"
      "get_first tflds 2 (Some 0) = None"
      "on_present value_int (get_first b_fields 2 (Some 0)) = Inr st"
      "get_first b_fields 3 (Some 1) = Some ef" "pvalue ef = VBytes eb" "length eb = 8"
      "\<not> is_nan (Float64 (word_rcat (rev eb)))"
    from get_first_Some [OF h(8)] have wt: "wire_type ef = 1" by simp
    have ts: "timestamp_of (get_first b_fields 1 (Some 2)) = Inr (Some \<lparr>seconds = secs, nanos = 0\<rparr>)"
      using h(1,2) parse_timestamp_seconds_only [OF h(3,4,5,6)]
      by (simp add: timestamp_of_def value_bytes_def)
    show "energy_bucket b =
            Inr (Some \<lparr>start_time = \<lparr>seconds = secs, nanos = 0\<rparr>, status = st,
                        energy_usage_kwh = Float64 (word_rcat (rev eb))\<rparr>)"
      unfolding energy_bucket_def Let_def
      using raw dec h(7-11) ts wt by (simp add: value_bytes_def fixed64_to_double_def)
  qed
  have c4: "energy_bucket b = Inr (Some bk)
            \<and> get_first b_fields 1 (Some 2) = Some tsf \<and> value_bytes tsf = Inr tsraw
            \<and> decode_message tsraw = Inr tflds \<and> get_first tflds 2 (Some 0) = None \<longrightarrow>
          nanos (start_time bk) = 0"
  proof (intro impI, elim conjE)
    assume h: "energy_bucket b = Inr (Some bk)"
      "get_first b_fields 1 (Some 2) = Some tsf" "value_bytes tsf = Inr tsraw"
      "decode_message tsraw = Inr tflds" "get_first tflds 2 (Some 0) = None"
    have pt: "parse_timestamp tsraw = Inr (Some t) \<Longrightarrow> nanos t = 0" for t
      unfolding parse_timestamp_def using h(4,5)
      by (auto simp: bindE_eq_Inr split: option.splits)
    from h(1) have "timestamp_of (Some tsf) = Inr (Some (start_time bk))"
      unfolding energy_bucket_def Let_def using raw dec h(2)
      by (auto simp: bindE_eq_Inr split: if_splits)
    then have "parse_timestamp tsraw = Inr (Some (start_time bk))"
      using h(3) by (simp add: timestamp_of_def)
    then show "nanos (start_time bk) = 0" by (rule pt)
  qed
  have c5: "parse_get_energy_metrics_response data = Inr out \<and> m \<in> set out
            \<and> bk' \<in> set (energy_buckets m) \<longrightarrow>
          \<not> is_nan (energy_usage_kwh bk')
          \<and> (\<exists>top_fields f' fraw flds b'. decode_message data = Inr top_fields
                \<and> f' \<in> set (get_all top_fields 1 (Some 2))
                \<and> pvalue f' = VBytes fraw \<and> decode_message fraw = Inr flds
                \<and> b' \<in> set (get_all flds 3 (Some 2)) \<and> energy_bucket b' = Inr (Some bk'))"
  proof (intro impI, elim conjE)
    assume h: "parse_get_energy_metrics_response data = Inr out" "m \<in> set out"
      "bk' \<in> set (energy_buckets m)"
    from parse_energy_metrics_source [OF h] obtain top_fields f' fraw flds b' where
      src: "decode_message data = Inr top_fields" "f' \<in> set (get_all top_fields 1 (Some 2))"
        "pvalue f' = VBytes fraw" "decode_message fraw = Inr flds"
        "b' \<in> set (get_all flds 3 (Some 2))" "energy_bucket b' = Inr (Some bk')"
      by blast
    from energy_bucket_not_nan [OF src(6)] src
    show "\<not> is_nan (energy_usage_kwh bk')
          \<and> (\<exists>top_fields f' fraw flds b'. decode_message data = Inr top_fields
                \<and> f' \<in> set (get_all top_fields 1 (Some 2))
                \<and> pvalue f' = VBytes fraw \<and> decode_message fraw = Inr flds
                \<and> b' \<in> set (get_all flds 3 (Some 2)) \<and> energy_bucket b' = Inr (Some bk'))"
      by blast
  qed
  show ?thesis
    apply (intro conjI impI)
    subgoal using c1 ins by blast
    subgoal using c2 ins by blast
    subgoal using c3 ins by blast
    subgoal using c4 by blast
    subgoal using ins by blast
    subgoal using c5 by blast
    subgoal using c5 by blast
    done
qed

theorem energy_metrics_nan_and_nanos_witness:
  "parse_get_energy_metrics_response
     ([0x0a, 0x03, 0x0a, 0x01, 0x70] @ ([0x0a, 0x23] @ [0x0a, 0x01, 0x73] @ [0x1a, 0x0d, 0x0a, 0x02, 0x08, 0x05, 0x19, 0x00, 0x00, 0x00, 0x00, 0x00, 0x00, 0xf8, 0x7f] @ [0x1a, 0x0f, 0x0a, 0x04, 0x08, 0x06, 0x10, 0x07, 0x19, 0x00, 0x00, 0x00, 0x00, 0x00, 0x00, 0xf4, 0x3f]) @ [0x0a, 0x03, 0x0a, 0x01, 0x71]) =
     Inr [\<lparr>em_space_id = [0x70], bucket_time_resolution = None, energy_buckets = []\<rparr>,
          \<lparr>em_space_id = [0x73], bucket_time_resolution = None,
           energy_buckets = [\<lparr>start_time = \<lparr>seconds = 5, nanos = 0\<rparr>, status = None, energy_usage_kwh = Float64 0\<rparr>,
                             \<lparr>start_time = \<lparr>seconds = 6, nanos = 7\<rparr>, status = None, energy_usage_kwh = Float64 0x3FF4000000000000\<rparr>]\<rparr>,
          \<lparr>em_space_id = [0x71], bucket_time_resolution = None, energy_buckets = []\<rparr>]
   \<and> parse_get_energy_metrics_response
     ([0x0a, 0x03, 0x0a, 0x01, 0x70] @ ([0x0a, 0x1f] @ [0x0a, 0x01, 0x73] @ [0x1a, 0x09, 0x0a, 0x02, 0x08, 0x05, 0x1d, 0x00, 0x00, 0xc0, 0x7f] @ [0x1a, 0x0f, 0x0a, 0x04, 0x08, 0x06, 0x10, 0x07, 0x19, 0x00, 0x00, 0x00, 0x00, 0x00, 0x00, 0xf4, 0x3f]) @ [0x0a, 0x03, 0x0a, 0x01, 0x71]) =
     Inr [\<lparr>em_space_id = [0x70], bucket_time_resolution = None, energy_buckets = []\<rparr>,
          \<lparr>em_space_id = [0x73], bucket_time_resolution = None,
           energy_buckets = [\<lparr>start_time = \<lparr>seconds = 5, nanos = 0\<rparr>, status = None, energy_usage_kwh = Float64 0\<rparr>,
                             \<lparr>start_time = \<lparr>seconds = 6, nanos = 7\<rparr>, status = None, energy_usage_kwh = Float64 0x3FF4000000000000\<rparr>]\<rparr>,
          \<lparr>em_space_id = [0x71], bucket_time_resolution = None, energy_buckets = []\<rparr>]
   \<and> parse_get_energy_metrics_response
     ([0x0a, 0x03, 0x0a, 0x01, 0x70] @ ([0x0a, 0x23] @ [0x0a, 0x01, 0x73] @ [0x1a, 0x0d, 0x0a, 0x02, 0x08, 0x05, 0x19, 0x00, 0x00, 0x00, 0x00, 0x00, 0x00, 0xf4, 0x3f] @ [0x1a, 0x0f, 0x0a, 0x04, 0x08, 0x06, 0x10, 0x07, 0x19, 0x00, 0x00, 0x00, 0x00, 0x00, 0x00, 0xf4, 0x3f]) @ [0x0a, 0x03, 0x0a, 0x01, 0x71]) =
     Inr [\<lparr>em_space_id = [0x70], bucket_time_resolution = None, energy_buckets = []\<rparr>,
          \<lparr>em_space_id = [0x73], bucket_time_resolution = None,
           energy_buckets = [\<lparr>start_time = \<lparr>seconds = 5, nanos = 0\<rparr>, status = None, energy_usage_kwh = Float64 0x3FF4000000000000\<rparr>,
                             \<lparr>start_time = \<lparr>seconds = 6, nanos = 7\<rparr>, status = None, energy_usage_kwh = Float64 0x3FF4000000000000\<rparr>]\<rparr>,
          \<lparr>em_space_id = [0x71], bucket_time_resolution = None, energy_buckets = []\<rparr>]
   \<and> nanos (start_time \<lparr>start_time = \<lparr>seconds = 5, nanos = 0\<rparr>, status = None, energy_usage_kwh = Float64 0x3FF4000000000000\<rparr>) = 0
   \<and> \<not> is_nan (energy_usage_kwh \<lparr>start_time = \<lparr>seconds = 5, nanos = 0\<rparr>, status = None, energy_usage_kwh = Float64 0\<rparr>)"
proof -
  let ?pre = "[0x0a, 0x03, 0x0a, 0x01, 0x70] :: bytes"
  let ?post = "[0x0a, 0x03, 0x0a, 0x01, 0x71] :: bytes"
  let ?bpre = "[0x0a, 0x01, 0x73] :: bytes"
  let ?bpost = "[0x1a, 0x0f, 0x0a, 0x04, 0x08, 0x06, 0x10, 0x07, 0x19, 0x00, 0x00, 0x00, 0x00, 0x00, 0x00, 0xf4, 0x3f] :: bytes"
  let ?tsf = "ProtoField 1 2 (VBytes [0x08, 0x05])"
  let ?b2 = "ProtoField 3 2 (VBytes [0x0a, 0x04, 0x08, 0x06, 0x10, 0x07, 0x19, 0x00, 0x00, 0x00, 0x00, 0x00, 0x00, 0xf4, 0x3f])"
  let ?bk0 = "\<lparr>start_time = \<lparr>seconds = 5, nanos = 0\<rparr>, status = None, energy_usage_kwh = Float64 0\<rparr>"
  let ?bkc = "\<lparr>start_time = \<lparr>seconds = 5, nanos = 0\<rparr>, status = None, energy_usage_kwh = Float64 0x3FF4000000000000\<rparr>"
  let ?bk2 = "\<lparr>start_time = \<lparr>seconds = 6, nanos = 7\<rparr>, status = None, energy_usage_kwh = Float64 0x3FF4000000000000\<rparr>"
  let ?raw_a = "[0x0a, 0x02, 0x08, 0x05, 0x19, 0x00, 0x00, 0x00, 0x00, 0x00, 0x00, 0xf8, 0x7f] :: bytes"
  let ?ef_a = "ProtoField 3 1 (VBytes [0x00, 0x00, 0x00, 0x00, 0x00, 0x00, 0xf8, 0x7f])"
  let ?raw_b = "[0x0a, 0x02, 0x08, 0x05, 0x1d, 0x00, 0x00, 0xc0, 0x7f] :: bytes"
  let ?ef_b = "ProtoField 3 5 (VBytes [0x00, 0x00, 0xc0, 0x7f])"
  let ?raw_c = "[0x0a, 0x02, 0x08, 0x05, 0x19, 0x00, 0x00, 0x00, 0x00, 0x00, 0x00, 0xf4, 0x3f] :: bytes"
  let ?ef_c = "ProtoField 3 1 (VBytes [0x00, 0x00, 0x00, 0x00, 0x00, 0x00, 0xf4, 0x3f])"
  have pre: "decode_message ?pre = Inr [ProtoField 1 2 (VBytes [0x0a, 0x01, 0x70])]" by code_simp
  have post: "decode_message ?post = Inr [ProtoField 1 2 (VBytes [0x0a, 0x01, 0x71])]" by code_simp
  have bpre: "decode_message ?bpre = Inr [ProtoField 1 2 (VBytes [0x73])]" by code_simp
  have bpost: "decode_message ?bpost = Inr [?b2]" by code_simp
  have sid: "get_first ([ProtoField 1 2 (VBytes [0x73])] @ [?b2]) 1 (Some 2) =
               Some (ProtoField 1 2 (VBytes [0x73]))" by simp
  have s: "value_str (ProtoField 1 2 (VBytes [0x73])) = Inr [0x73]" by code_simp
  have res: "on_present value_int (get_first ([ProtoField 1 2 (VBytes [0x73])] @ [?b2]) 2 (Some 0)) =
               Inr None" by (simp add: on_present_def)
  have ppre: "parse_get_energy_metrics_response ?pre =
      Inr [\<lparr>em_space_id = [0x70], bucket_time_resolution = None, energy_buckets = []\<rparr>]"
    by code_simp
  have ppost: "parse_get_energy_metrics_response ?post =
      Inr [\<lparr>em_space_id = [0x71], bucket_time_resolution = None, energy_buckets = []\<rparr>]"
    by code_simp
  have l1: "energy_buckets_loop (get_all [ProtoField 1 2 (VBytes [0x73])] 3 (Some 2)) [] = Inr []"
    by simp
  have l2: "energy_buckets_loop (get_all [?b2] 3 (Some 2)) [] = Inr [?bk2]"
    by code_simp
  have tsd: "decode_message [0x08, 0x05] = Inr [ProtoField 1 0 (VInt 5)]" by code_simp
  have w125: "word_rcat (rev [0x00, 0x00, 0x00, 0x00, 0x00, 0x00, 0xf4, 0x3f] :: byte list) = (0x3FF4000000000000 :: 64 word)"
    by code_simp
  have n125: "\<not> is_nan (Float64 (word_rcat (rev [0x00, 0x00, 0x00, 0x00, 0x00, 0x00, 0xf4, 0x3f] :: byte list)))"
    by code_simp
  have n64: "is_nan (Float64 (word_rcat (rev [0x00, 0x00, 0x00, 0x00, 0x00, 0x00, 0xf8, 0x7f] :: byte list)))"
    by code_simp
  have n32: "is_nan (Float32 (word_rcat (rev [0x00, 0x00, 0xc0, 0x7f] :: byte list)))"
    by code_simp
  have mid_a: "decode_message ([0x0a, 0x23] @ ?bpre @ [0x1a, 0x0d, 0x0a, 0x02, 0x08, 0x05, 0x19, 0x00, 0x00, 0x00, 0x00, 0x00, 0x00, 0xf8, 0x7f] @ ?bpost) =
      Inr [ProtoField 1 2 (VBytes (?bpre @ [0x1a, 0x0d, 0x0a, 0x02, 0x08, 0x05, 0x19, 0x00, 0x00, 0x00, 0x00, 0x00, 0x00, 0xf8, 0x7f] @ ?bpost))]" by code_simp
  have bmid_a: "decode_message [0x1a, 0x0d, 0x0a, 0x02, 0x08, 0x05, 0x19, 0x00, 0x00, 0x00, 0x00, 0x00, 0x00, 0xf8, 0x7f] = Inr [ProtoField 3 2 (VBytes ?raw_a)]" by code_simp
  have dec_a: "decode_message ?raw_a = Inr [?tsf, ?ef_a]" by code_simp
  have ts_a: "timestamp_of (get_first [?tsf, ?ef_a] 1 (Some 2)) =
      Inr (Some \<lparr>seconds = 5, nanos = 0\<rparr>)" by code_simp
  have st_a: "on_present value_int (get_first [?tsf, ?ef_a] 2 (Some 0)) = Inr None"
    by (simp add: on_present_def)
  note thm_a = energy_metrics_nan_and_nanos
      [OF pre mid_a post _ _ _ bpre bmid_a bpost _ _ _ dec_a sid s res, simplified]
  have mid_b: "decode_message ([0x0a, 0x1f] @ ?bpre @ [0x1a, 0x09, 0x0a, 0x02, 0x08, 0x05, 0x1d, 0x00, 0x00, 0xc0, 0x7f] @ ?bpost) =
      Inr [ProtoField 1 2 (VBytes (?bpre @ [0x1a, 0x09, 0x0a, 0x02, 0x08, 0x05, 0x1d, 0x00, 0x00, 0xc0, 0x7f] @ ?bpost))]" by code_simp
  have bmid_b: "decode_message [0x1a, 0x09, 0x0a, 0x02, 0x08, 0x05, 0x1d, 0x00, 0x00, 0xc0, 0x7f] = Inr [ProtoField 3 2 (VBytes ?raw_b)]" by code_simp
  have dec_b: "decode_message ?raw_b = Inr [?tsf, ?ef_b]" by code_simp
  have ts_b: "timestamp_of (get_first [?tsf, ?ef_b] 1 (Some 2)) =
      Inr (Some \<lparr>seconds = 5, nanos = 0\<rparr>)" by code_simp
  have st_b: "on_present value_int (get_first [?tsf, ?ef_b] 2 (Some 0)) = Inr None"
    by (simp add: on_present_def)
  note thm_b = energy_metrics_nan_and_nanos
      [OF pre mid_b post _ _ _ bpre bmid_b bpost _ _ _ dec_b sid s res, simplified]
  have mid_c: "decode_message ([0x0a, 0x23] @ ?bpre @ [0x1a, 0x0d, 0x0a, 0x02, 0x08, 0x05, 0x19, 0x00, 0x00, 0x00, 0x00, 0x00, 0x00, 0xf4, 0x3f] @ ?bpost) =
      Inr [ProtoField 1 2 (VBytes (?bpre @ [0x1a, 0x0d, 0x0a, 0x02, 0x08, 0x05, 0x19, 0x00, 0x00, 0x00, 0x00, 0x00, 0x00, 0xf4, 0x3f] @ ?bpost))]" by code_simp
  have bmid_c: "decode_message [0x1a, 0x0d, 0x0a, 0x02, 0x08, 0x05, 0x19, 0x00, 0x00, 0x00, 0x00, 0x00, 0x00, 0xf4, 0x3f] = Inr [ProtoField 3 2 (VBytes ?raw_c)]" by code_simp
  have dec_c: "decode_message ?raw_c = Inr [?tsf, ?ef_c]" by code_simp
  have ts_c: "timestamp_of (get_first [?tsf, ?ef_c] 1 (Some 2)) =
      Inr (Some \<lparr>seconds = 5, nanos = 0\<rparr>)" by code_simp
  have st_c: "on_present value_int (get_first [?tsf, ?ef_c] 2 (Some 0)) = Inr None"
    by (simp add: on_present_def)
  note thm_c = energy_metrics_nan_and_nanos
      [OF pre mid_c post _ _ _ bpre bmid_c bpost _ _ _ dec_c sid s res, simplified]
  have a: "parse_get_energy_metrics_response
     ([0x0a, 0x03, 0x0a, 0x01, 0x70] @ ([0x0a, 0x23] @ [0x0a, 0x01, 0x73] @ [0x1a, 0x0d, 0x0a, 0x02, 0x08, 0x05, 0x19, 0x00, 0x00, 0x00, 0x00, 0x00, 0x00, 0xf8, 0x7f] @ [0x1a, 0x0f, 0x0a, 0x04, 0x08, 0x06, 0x10, 0x07, 0x19, 0x00, 0x00, 0x00, 0x00, 0x00, 0x00, 0xf4, 0x3f]) @ [0x0a, 0x03, 0x0a, 0x01, 0x71]) =
     Inr [\<lparr>em_space_id = [0x70], bucket_time_resolution = None, energy_buckets = []\<rparr>,
          \<lparr>em_space_id = [0x73], bucket_time_resolution = None,
           energy_buckets = [\<lparr>start_time = \<lparr>seconds = 5, nanos = 0\<rparr>, status = None, energy_usage_kwh = Float64 0\<rparr>,
                             \<lparr>start_time = \<lparr>seconds = 6, nanos = 7\<rparr>, status = None, energy_usage_kwh = Float64 0x3FF4000000000000\<rparr>]\<rparr>,
          \<lparr>em_space_id = [0x71], bucket_time_resolution = None, energy_buckets = []\<rparr>]"
    using thm_a [where ts = "\<lparr>seconds = 5, nanos = 0\<rparr>" and st = None and ef = ?ef_a
        and eb = "[0x00, 0x00, 0x00, 0x00, 0x00, 0x00, 0xf8, 0x7f]"]
      ts_a st_a n64 ppre ppost l1 l2 by simp
  have b: "parse_get_energy_metrics_response
     ([0x0a, 0x03, 0x0a, 0x01, 0x70] @ ([0x0a, 0x1f] @ [0x0a, 0x01, 0x73] @ [0x1a, 0x09, 0x0a, 0x02, 0x08, 0x05, 0x1d, 0x00, 0x00, 0xc0, 0x7f] @ [0x1a, 0x0f, 0x0a, 0x04, 0x08, 0x06, 0x10, 0x07, 0x19, 0x00, 0x00, 0x00, 0x00, 0x00, 0x00, 0xf4, 0x3f]) @ [0x0a, 0x03, 0x0a, 0x01, 0x71]) =
     Inr [\<lparr>em_space_id = [0x70], bucket_time_resolution = None, energy_buckets = []\<rparr>,
          \<lparr>em_space_id = [0x73], bucket_time_resolution = None,
           energy_buckets = [\<lparr>start_time = \<lparr>seconds = 5, nanos = 0\<rparr>, status = None, energy_usage_kwh = Float64 0\<rparr>,
                             \<lparr>start_time = \<lparr>seconds = 6, nanos = 7\<rparr>, status = None, energy_usage_kwh = Float64 0x3FF4000000000000\<rparr>]\<rparr>,
          \<lparr>em_space_id = [0x71], bucket_time_resolution = None, energy_buckets = []\<rparr>]"
    using thm_b [where ts = "\<lparr>seconds = 5, nanos = 0\<rparr>" and st = None and ef = ?ef_b
        and eb = "[0x00, 0x00, 0xc0, 0x7f]"]
      ts_b st_b n32 ppre ppost l1 l2 by simp
  have c: "parse_get_energy_metrics_response
     ([0x0a, 0x03, 0x0a, 0x01, 0x70] @ ([0x0a, 0x23] @ [0x0a, 0x01, 0x73] @ [0x1a, 0x0d, 0x0a, 0x02, 0x08, 0x05, 0x19, 0x00, 0x00, 0x00, 0x00, 0x00, 0x00, 0xf4, 0x3f] @ [0x1a, 0x0f, 0x0a, 0x04, 0x08, 0x06, 0x10, 0x07, 0x19, 0x00, 0x00, 0x00, 0x00, 0x00, 0x00, 0xf4, 0x3f]) @ [0x0a, 0x03, 0x0a, 0x01, 0x71]) =
     Inr [\<lparr>em_space_id = [0x70], bucket_time_resolution = None, energy_buckets = []\<rparr>,
          \<lparr>em_space_id = [0x73], bucket_time_resolution = None,
           energy_buckets = [\<lparr>start_time = \<lparr>seconds = 5, nanos = 0\<rparr>, status = None, energy_usage_kwh = Float64 0x3FF4000000000000\<rparr>,
                             \<lparr>start_time = \<lparr>seconds = 6, nanos = 7\<rparr>, status = None, energy_usage_kwh = Float64 0x3FF4000000000000\<rparr>]\<rparr>,
          \<lparr>em_space_id = [0x71], bucket_time_resolution = None, energy_buckets = []\<rparr>]"
    using thm_c [where tsf = ?tsf and tsraw = "[0x08, 0x05]" and tflds = "[ProtoField 1 0 (VInt 5)]"
        and sec = "ProtoField 1 0 (VInt 5)" and secs = 5 and st = None and ef = ?ef_c
        and eb = "[0x00, 0x00, 0x00, 0x00, 0x00, 0x00, 0xf4, 0x3f]"]
      tsd st_c n125 w125 ppre ppost l1 l2 by simp
  have ebc: "energy_bucket (ProtoField 3 2 (VBytes ?raw_c)) = Inr (Some ?bkc)" by code_simp
  have d: "nanos (start_time ?bkc) = 0"
    using thm_c [where bk = ?bkc and tsf = ?tsf and tsraw = "[0x08, 0x05]"
        and tflds = "[ProtoField 1 0 (VInt 5)]"]
      ebc tsd by (simp add: value_bytes_def)
  have e: "\<not> is_nan (energy_usage_kwh ?bk0)"
    using thm_a [where data = "([0x0a, 0x03, 0x0a, 0x01, 0x70] @ ([0x0a, 0x23] @ [0x0a, 0x01, 0x73] @ [0x1a, 0x0d, 0x0a, 0x02, 0x08, 0x05, 0x19, 0x00, 0x00, 0x00, 0x00, 0x00, 0x00, 0xf8, 0x7f] @ [0x1a, 0x0f, 0x0a, 0x04, 0x08, 0x06, 0x10, 0x07, 0x19, 0x00, 0x00, 0x00, 0x00, 0x00, 0x00, 0xf4, 0x3f]) @ [0x0a, 0x03, 0x0a, 0x01, 0x71])" and bk' = ?bk0
        and m = "\<lparr>em_space_id = [0x73], bucket_time_resolution = None,
                  energy_buckets = [?bk0, ?bk2]\<rparr>"
        and out = "[\<lparr>em_space_id = [0x70], bucket_time_resolution = None, energy_buckets = []\<rparr>,
          \<lparr>em_space_id = [0x73], bucket_time_resolution = None,
           energy_buckets = [?bk0, ?bk2]\<rparr>,
          \<lparr>em_space_id = [0x71], bucket_time_resolution = None, energy_buckets = []\<rparr>]"]
      a by simp
  from a b c d e show ?thesis by (intro conjI)
qed

section \<open>Claims on the home datastore snapshot\<close>

lemma for_each_append:
  "for_each body (xs @ ys) st = bindE (for_each body xs st) (for_each body ys)"
  by (induction xs arbitrary: st) (simp_all split: sum.splits)

lemma for_each_inv:
  assumes step: "\<And>x s s'. x \<in> set xs \<Longrightarrow> P s \<Longrightarrow> body x s = Inr s' \<Longrightarrow> P s'"
      and init: "P st"
      and run: "for_each body xs st = Inr st'"
  shows "P st'"
  using assms
proof (induction xs arbitrary: st)
  case Nil
  then show ?case by simp
next
  case (Cons x xs)
  from Cons.prems(3) obtain s1 where b: "body x st = Inr s1" and r: "for_each body xs s1 = Inr st'"
    by (auto split: sum.splits)
  have p1: "P s1" using Cons.prems(1) [of x st s1] Cons.prems(2) b by simp
  show ?case
  proof (rule Cons.IH [of s1])
    show "\<And>y s s'. y \<in> set xs \<Longrightarrow> P s \<Longrightarrow> body y s = Inr s' \<Longrightarrow> P s'"
      using Cons.prems(1) by auto
    show "P s1" by (rule p1)
    show "for_each body xs s1 = Inr st'" by (rule r)
  qed
qed

lemma for_each_commute:
  assumes "\<And>x s. x \<in> set xs \<Longrightarrow> body x (g s) = map_sum id g (body x s)"
  shows "for_each body xs (g st) = map_sum id g (for_each body xs st)"
  using assms
proof (induction xs arbitrary: st)
  case Nil
  show ?case by simp
next
  case (Cons x xs)
  show ?case
  proof (cases "body x st")
    case (Inl e)
    with Cons.prems [of x st] show ?thesis by simp
  next
    case (Inr s1)
    with Cons.prems [of x st] Cons.IH [of s1] Cons.prems show ?thesis by simp
  qed
qed

lemma for_each_insert:
  assumes x: "\<And>s. body x s = Inr (g s)"
      and c: "\<And>y s. y \<in> set ys \<Longrightarrow> body y (g s) = map_sum id g (body y s)"
  shows "for_each body (xs @ [x] @ ys) st = map_sum id g (for_each body (xs @ ys) st)"
proof (cases "for_each body xs st")
  case (Inl e)
  then show ?thesis by (simp add: for_each_append)
next
  case (Inr s1)
  then show ?thesis
    using x for_each_commute [of ys body g s1, OF c]
    by (simp add: for_each_append)
qed

lemma for_each_cong_body:
  assumes "\<And>x s. x \<in> set xs \<Longrightarrow> body x s = body' x s"
  shows "for_each body xs st = for_each body' xs st"
  using assms by (induction xs arbitrary: st) (simp_all split: sum.splits)

lemma with_topics_id [simp]: "with_topics id st = st" "with_topics (\<lambda>m. m) st = st"
  by (simp_all add: with_topics_def)

lemma commutes_add_id: "commutes_add id" "commutes_add (\<lambda>m. m)"
  by (simp_all add: commutes_add_def)

lemma setdefault_add_commute:
  "setdefault_add t k (setdefault_add t' k' m) = setdefault_add t' k' (setdefault_add t k m)"
  unfolding setdefault_add_def
  by (rule ext) (auto split: option.splits)

lemma commutes_add_setdefault: "commutes_add (setdefault_add t k)"
  unfolding commutes_add_def by (simp add: setdefault_add_commute)

lemma topic_object_commute:
  assumes "commutes_add h"
  shows "topic_object t x (with_topics h s) = map_sum id (with_topics h) (topic_object t x s)"
  using assms unfolding topic_object_def commutes_add_def with_topics_def
  by (auto simp: bindE_def split: sum.splits option.splits error.splits)

lemma indoor_unit_object_commute:
  assumes "commutes_add h"
  shows "indoor_unit_object x (with_topics h s) = map_sum id (with_topics h) (indoor_unit_object x s)"
  using assms unfolding indoor_unit_object_def commutes_add_def with_topics_def Let_def
  by (auto simp: bindE_def split: sum.splits option.splits error.splits)

lemma space_object_commute:
  assumes "commutes_add h"
  shows "space_object x (with_topics h s) = map_sum id (with_topics h) (space_object x s)"
  using assms unfolding space_object_def commutes_add_def with_topics_def Let_def
  by (auto simp: bindE_def split: sum.splits option.splits error.splits)

lemma comfort_setting_object_commute:
  assumes "commutes_add h"
  shows "comfort_setting_object x (with_topics h s) =
           map_sum id (with_topics h) (comfort_setting_object x s)"
  using assms unfolding comfort_setting_object_def commutes_add_def with_topics_def Let_def
  by (auto simp: bindE_def split: sum.splits option.splits error.splits)

lemma get_all_insert:
  assumes "number f = n" "wire_type f = 2"
  shows "get_all (fs1 @ [f] @ fs2) m (Some 2) =
           (if m = n then get_all fs1 m (Some 2) @ [f] @ get_all fs2 m (Some 2)
            else get_all (fs1 @ fs2) m (Some 2))"
  using assms by (simp add: get_all_append)

lemma topic_index_commute:
  assumes "commutes_add h"
  shows "topic_index top_fields e (with_topics h s) =
           map_sum id (with_topics h) (topic_index top_fields e s)"
  unfolding topic_index_def
  by (rule for_each_commute) (rule topic_object_commute [OF assms])

lemma topic_index_other:
  assumes "number f = n" "wire_type f = 2" "fst e \<noteq> n"
  shows "topic_index (fs1 @ [f] @ fs2) e st = topic_index (fs1 @ fs2) e st"
  unfolding topic_index_def using assms by (auto simp: get_all_append)

lemma topic_index_insert:
  assumes f: "number f = n" "wire_type f = 2"
      and t: "\<And>s. topic_object t f s = Inr (with_topics h s)"
      and h: "commutes_add h"
  shows "topic_index (fs1 @ [f] @ fs2) (n, t) st =
           map_sum id (with_topics h) (topic_index (fs1 @ fs2) (n, t) st)"
proof -
  have "for_each (topic_object t) (get_all fs1 n (Some 2) @ [f] @ get_all fs2 n (Some 2)) st =
          map_sum id (with_topics h)
            (for_each (topic_object t) (get_all fs1 n (Some 2) @ get_all fs2 n (Some 2)) st)"
    by (rule for_each_insert) (rule t, rule topic_object_commute [OF h])
  then show ?thesis
    unfolding topic_index_def using f by (simp add: get_all_append)
qed

lemma topics_loop_other:
  assumes "number f = n" "wire_type f = 2" "n \<notin> fst ` set tbl"
  shows "for_each (topic_index (fs1 @ [f] @ fs2)) tbl st =
           for_each (topic_index (fs1 @ fs2)) tbl st"
proof (rule for_each_cong_body)
  fix e s
  assume "e \<in> set tbl"
  with assms(3) have "fst e \<noteq> n" by auto
  from topic_index_other [OF assms(1,2) this]
  show "topic_index (fs1 @ [f] @ fs2) e s = topic_index (fs1 @ fs2) e s" .
qed

lemma topics_loop_insert:
  assumes f: "number f = n" "wire_type f = 2"
      and t: "\<And>s. topic_object t f s = Inr (with_topics h s)"
      and h: "commutes_add h"
      and tbl: "distinct (map fst tbl)" "(n, t) \<in> set tbl"
  shows "for_each (topic_index (fs1 @ [f] @ fs2)) tbl st =
           map_sum id (with_topics h) (for_each (topic_index (fs1 @ fs2)) tbl st)"
  using tbl
proof (induction tbl arbitrary: st)
  case Nil
  then show ?case by simp
next
  case (Cons e tbl)
  show ?case
  proof (cases "e = (n, t)")
    case True
    with Cons.prems(1) have notin: "n \<notin> fst ` set tbl" by auto
    have rest: "for_each (topic_index (fs1 @ [f] @ fs2)) tbl s =
                for_each (topic_index (fs1 @ fs2)) tbl s" for s
      by (rule topics_loop_other [OF f notin])
    have comm: "for_each (topic_index (fs1 @ fs2)) tbl (with_topics h s) =
                map_sum id (with_topics h) (for_each (topic_index (fs1 @ fs2)) tbl s)" for s
      by (rule for_each_commute) (rule topic_index_commute [OF h])
    show ?thesis
      using True topic_index_insert [OF f t h, of fs1 fs2 st] rest comm
      by (cases "topic_index (fs1 @ fs2) (n, t) st") (simp_all add: id_def)
  next
    case False
    with Cons.prems have ne: "fst e \<noteq> n" and d: "distinct (map fst tbl)" and m: "(n, t) \<in> set tbl"
      by (auto simp: image_iff)
    show ?thesis
      using topic_index_other [OF f ne, of fs1 fs2 st] Cons.IH [OF d m]
      by (cases "topic_index (fs1 @ fs2) e st") simp_all
  qed
qed

lemma entity_loop_insert:
  assumes f: "number f = n" "wire_type f = 2"
      and skip: "m = n \<Longrightarrow> \<forall>s. body f s = Inr s"
  shows "for_each body (get_all (fs1 @ [f] @ fs2) m (Some 2)) st =
           for_each body (get_all (fs1 @ fs2) m (Some 2)) st"
proof (cases "m = n")
  case True
  have "for_each body (get_all fs1 m (Some 2) @ [f] @ get_all fs2 m (Some 2)) st =
          map_sum id (\<lambda>s. s) (for_each body (get_all fs1 m (Some 2) @ get_all fs2 m (Some 2)) st)"
  proof (rule for_each_insert)
    show "body f s = Inr s" for s using skip [OF True] by simp
    show "body y s = map_sum id (\<lambda>s. s) (body y s)" for y s
      by (cases "body y s") simp_all
  qed
  also have "\<dots> = for_each body (get_all fs1 m (Some 2) @ get_all fs2 m (Some 2)) st"
    by (cases "for_each body (get_all fs1 m (Some 2) @ get_all fs2 m (Some 2)) st") simp_all
  finally show ?thesis
    using True f by (simp add: get_all_append)
next
  case False
  then show ?thesis using f by (auto simp: get_all_append)
qed

lemma field_to_topic_distinct: "distinct (map fst field_to_topic)"
  by (simp add: field_to_topic_def)

lemma hds_from_fields_insert:
  assumes f: "number f = n" "wire_type f = 2"
      and nt: "(n, t) \<in> set field_to_topic"
      and t: "\<And>s. topic_object t f s = Inr (with_topics h s)"
      and h: "commutes_add h"
      and iu: "9 = n \<Longrightarrow> \<forall>s. indoor_unit_object f s = Inr s"
      and sp: "3 = n \<Longrightarrow> \<forall>s. space_object f s = Inr s"
      and cs: "13 = n \<Longrightarrow> \<forall>s. comfort_setting_object f s = Inr s"
  shows "hds_from_fields (fs1 @ [f] @ fs2) =
           map_sum id (with_topics h) (hds_from_fields (fs1 @ fs2))"
proof -
  let ?top = "fs1 @ [f] @ fs2" and ?top' = "fs1 @ fs2"
  have l1: "for_each (topic_index ?top) field_to_topic hds_empty =
              map_sum id (with_topics h) (for_each (topic_index ?top') field_to_topic hds_empty)"
    by (rule topics_loop_insert [OF f t h field_to_topic_distinct nt])
  have l2: "for_each indoor_unit_object (get_all ?top 9 (Some 2)) s =
              for_each indoor_unit_object (get_all ?top' 9 (Some 2)) s" for s
    by (rule entity_loop_insert [where body = indoor_unit_object, OF f iu])
  have l3: "for_each space_object (get_all ?top 3 (Some 2)) s =
              for_each space_object (get_all ?top' 3 (Some 2)) s" for s
    by (rule entity_loop_insert [where body = space_object, OF f sp])
  have l4: "for_each comfort_setting_object (get_all ?top 13 (Some 2)) s =
              for_each comfort_setting_object (get_all ?top' 13 (Some 2)) s" for s
    by (rule entity_loop_insert [where body = comfort_setting_object, OF f cs])
  have c2: "for_each indoor_unit_object xs (with_topics h s) =
              map_sum id (with_topics h) (for_each indoor_unit_object xs s)" for xs s
    by (rule for_each_commute) (rule indoor_unit_object_commute [OF h])
  have c3: "for_each space_object xs (with_topics h s) =
              map_sum id (with_topics h) (for_each space_object xs s)" for xs s
    by (rule for_each_commute) (rule space_object_commute [OF h])
  have c4: "for_each comfort_setting_object xs (with_topics h s) =
              map_sum id (with_topics h) (for_each comfort_setting_object xs s)" for xs s
    by (rule for_each_commute) (rule comfort_setting_object_commute [OF h])
  show ?thesis
    unfolding hds_from_fields_def l1 l2 l3 l4
    by (auto simp: bindE_def c2 c3 c4 split: sum.splits)
qed

lemma parse_hds_insert:
  assumes pre: "decode_message pre = Inr fs1"
      and obj: "decode_message obj = Inr [f]"
      and post: "decode_message post = Inr fs2"
      and ins: "hds_from_fields (fs1 @ [f] @ fs2) =
                  map_sum id (with_topics h) (hds_from_fields (fs1 @ fs2))"
  shows "parse_get_home_datastore_system_response (pre @ obj @ post) =
           map_sum id (with_topics h) (parse_get_home_datastore_system_response (pre @ post))"
  unfolding parse_get_home_datastore_system_response_def
  using decode_message_append3 [OF pre obj post] ins by simp

lemma topic_object_no_system_id:
  assumes "pvalue f = VBytes raw" "decode_message raw = Inr ofs"
      and "get_first ofs 1 (Some 2) = Some hf" "pvalue hf = VBytes hraw"
      and "decode_message hraw = Inr hfs"
      and "get_first hfs 1 (Some 2) = Some idf" "value_str idf = Inr k"
      and "get_first hfs 4 (Some 2) = None"
  shows "topic_object t f s = Inr (with_topics (setdefault_add t k) s)"
  using assms unfolding topic_object_def with_topics_def
  by (simp add: value_bytes_def)

lemma entity_objects_no_system_id:
  assumes "pvalue f = VBytes raw" "decode_message raw = Inr ofs"
      and "get_first ofs 1 (Some 2) = Some hf" "pvalue hf = VBytes hraw"
      and "decode_message hraw = Inr hfs"
      and "get_first hfs 4 (Some 2) = None"
  shows "indoor_unit_object f s = Inr s"
    and "space_object f s = Inr s"
    and "comfort_setting_object f s = Inr s"
  using assms
  unfolding indoor_unit_object_def space_object_def comfort_setting_object_def
    parse_indoor_unit_header_def parse_header_def parse_comfort_setting_header_def
  by (simp_all add: value_bytes_def Let_def)


text \<open>
  Claim C10. Take a response made of bytes \<open>pre\<close> that decode, one Space, IndoorUnit or
  ComfortSetting object (field 3, 9 or 13) and bytes \<open>post\<close> that decode. If the object and
  its header decode, the header carries the id \<open>k\<close> in field 1 and has no system-id field
  (field 4), then the result is that of the response without the object, except that the topic
  index has \<open>k\<close> added under the topic of the object: the entity maps are those of the
  response without it, and \<open>k\<close> is in \<open>topic_ids\<close>. The bodies of the three entity loops
  leave the state as it is on such an object, and the body of the topic loop adds \<open>k\<close>.
\<close>

theorem hds_object_without_system_id:
  assumes pre: "decode_message pre = Inr fs1"
      and obj: "decode_message obj = Inr [f]"
      and post: "decode_message post = Inr fs2"
      and f: "number f = n" "wire_type f = 2" "pvalue f = VBytes raw"
      and nt: "(n, t) \<in> {(3, ''space''), (9, ''indoor_unit''), (13, ''comfort_setting'')}"
      and hdr: "decode_message raw = Inr ofs" "get_first ofs 1 (Some 2) = Some hf"
               "pvalue hf = VBytes hraw" "decode_message hraw = Inr hfs"
      and oid: "get_first hfs 1 (Some 2) = Some idf" "value_str idf = Inr k"
      and nosys: "get_first hfs 4 (Some 2) = None"
  shows "parse_get_home_datastore_system_response (pre @ obj @ post) =
           map_sum id (\<lambda>r. r\<lparr>topic_ids := setdefault_add t k (topic_ids r)\<rparr>)
             (parse_get_home_datastore_system_response (pre @ post))
       \<and> (\<forall>r. parse_get_home_datastore_system_response (pre @ obj @ post) = Inr r \<longrightarrow>
             (\<exists>r'. parse_get_home_datastore_system_response (pre @ post) = Inr r'
                  \<and> spaces r = spaces r' \<and> indoor_units r = indoor_units r'
                  \<and> comfort_settings r = comfort_settings r')
             \<and> (\<exists>s. topic_ids r t = Some s \<and> k \<in> s))
       \<and> (\<forall>st. space_object f st = Inr st)
       \<and> (\<forall>st. indoor_unit_object f st = Inr st)
       \<and> (\<forall>st. comfort_setting_object f st = Inr st)
       \<and> (\<forall>st. topic_object t f st =
                  Inr (st\<lparr>topic_ids := setdefault_add t k (topic_ids st)\<rparr>))"
proof -
  from nt have tbl: "(n, t) \<in> set field_to_topic"
    by (auto simp: field_to_topic_def)
  note ent = entity_objects_no_system_id [OF f(3) hdr nosys]
  have ins: "hds_from_fields (fs1 @ [f] @ fs2) =
               map_sum id (with_topics (setdefault_add t k)) (hds_from_fields (fs1 @ fs2))"
  proof (rule hds_from_fields_insert [OF f(1,2) tbl])
    show "topic_object t f s = Inr (with_topics (setdefault_add t k) s)" for s
      by (rule topic_object_no_system_id [OF f(3) hdr oid nosys])
    show "commutes_add (setdefault_add t k)" by (rule commutes_add_setdefault)
    show "\<forall>s. indoor_unit_object f s = Inr s" by (simp add: ent)
    show "\<forall>s. space_object f s = Inr s" by (simp add: ent)
    show "\<forall>s. comfort_setting_object f s = Inr s" by (simp add: ent)
  qed
  have wt: "with_topics (setdefault_add t k) = (\<lambda>r. r\<lparr>topic_ids := setdefault_add t k (topic_ids r)\<rparr>)"
    by (rule ext) (simp add: with_topics_def)
  have eq: "parse_get_home_datastore_system_response (pre @ obj @ post) =
           map_sum id (\<lambda>r. r\<lparr>topic_ids := setdefault_add t k (topic_ids r)\<rparr>)
             (parse_get_home_datastore_system_response (pre @ post))"
    using parse_hds_insert [OF pre obj post ins] unfolding wt .
  have cons: "\<forall>r. parse_get_home_datastore_system_response (pre @ obj @ post) = Inr r \<longrightarrow>
             (\<exists>r'. parse_get_home_datastore_system_response (pre @ post) = Inr r'
                  \<and> spaces r = spaces r' \<and> indoor_units r = indoor_units r'
                  \<and> comfort_settings r = comfort_settings r')
             \<and> (\<exists>s. topic_ids r t = Some s \<and> k \<in> s)"
    unfolding eq
    by (cases "parse_get_home_datastore_system_response (pre @ post)")
       (auto simp: setdefault_add_def)
  have top: "\<forall>st. topic_object t f st =
                  Inr (st\<lparr>topic_ids := setdefault_add t k (topic_ids st)\<rparr>)"
    using topic_object_no_system_id [OF f(3) hdr oid nosys, of t]
    by (simp add: with_topics_def)
  from ent have bodies: "(\<forall>st. space_object f st = Inr st)
       \<and> (\<forall>st. indoor_unit_object f st = Inr st)
       \<and> (\<forall>st. comfort_setting_object f st = Inr st)"
    by simp
  from eq cons bodies top show ?thesis by (intro conjI) simp_all
qed

theorem hds_object_without_system_id_witness:
  "\<not> isl (parse_get_home_datastore_system_response
            ([0x1a, 0x08, 0x0a, 0x06, 0x0a, 0x01, 0x62, 0x22, 0x01, 0x73]
               @ [0x1a, 0x05, 0x0a, 0x03, 0x0a, 0x01, 0x61] @ []))
   \<and> spaces (projr (parse_get_home_datastore_system_response
            ([0x1a, 0x08, 0x0a, 0x06, 0x0a, 0x01, 0x62, 0x22, 0x01, 0x73]
               @ [0x1a, 0x05, 0x0a, 0x03, 0x0a, 0x01, 0x61] @ []))) [0x61] = None
   \<and> [0x61] \<in> the (topic_ids (projr (parse_get_home_datastore_system_response
            ([0x1a, 0x08, 0x0a, 0x06, 0x0a, 0x01, 0x62, 0x22, 0x01, 0x73]
               @ [0x1a, 0x05, 0x0a, 0x03, 0x0a, 0x01, 0x61] @ []))) ''space'')"
proof -
  let ?pre = "[0x1a, 0x08, 0x0a, 0x06, 0x0a, 0x01, 0x62, 0x22, 0x01, 0x73] :: bytes"
  let ?obj = "[0x1a, 0x05, 0x0a, 0x03, 0x0a, 0x01, 0x61] :: bytes"
  let ?f = "ProtoField 3 2 (VBytes [0x0a, 0x03, 0x0a, 0x01, 0x61])"
  let ?hf = "ProtoField 1 2 (VBytes [0x0a, 0x01, 0x61])"
  let ?idf = "ProtoField 1 2 (VBytes [0x61])"
  let ?P = "parse_get_home_datastore_system_response"
  have pre: "decode_message ?pre =
               Inr [ProtoField 3 2 (VBytes [0x0a, 0x06, 0x0a, 0x01, 0x62, 0x22, 0x01, 0x73])]"
    by code_simp
  have obj: "decode_message ?obj = Inr [?f]" by code_simp
  have post: "decode_message [] = Inr []" by (rule decode_message_Nil)
  have d1: "decode_message [0x0a, 0x03, 0x0a, 0x01, 0x61] = Inr [?hf]" by code_simp
  have d2: "decode_message [0x0a, 0x01, 0x61] = Inr [?idf]" by code_simp
  have vs: "value_str ?idf = Inr [0x61]" by code_simp
  have ok: "\<not> isl (?P (?pre @ []))" by code_simp
  have sp: "spaces (projr (?P (?pre @ []))) [0x61] = None" by code_simp
  have f1: "number ?f = 3" and f2: "wire_type ?f = 2"
    and f3: "pvalue ?f = VBytes [0x0a, 0x03, 0x0a, 0x01, 0x61]" by simp_all
  have nt: "(3, ''space'') \<in> {(3 :: int, ''space''), (9, ''indoor_unit''), (13, ''comfort_setting'')}"
    by simp
  have g1: "get_first [?hf] 1 (Some 2) = Some ?hf" by simp
  have h3: "pvalue ?hf = VBytes [0x0a, 0x01, 0x61]" by simp
  have g2: "get_first [?idf] 1 (Some 2) = Some ?idf" by simp
  have g4: "get_first [?idf] 4 (Some 2) = None" by simp
  note inst0 = hds_object_without_system_id
    [OF pre obj post f1 f2 f3 nt d1 g1 h3 d2 g2 vs g4]
  have inst: "?P (?pre @ ?obj @ []) =
           map_sum id (\<lambda>r. r\<lparr>topic_ids := setdefault_add ''space'' [0x61] (topic_ids r)\<rparr>)
             (?P (?pre @ []))
       \<and> (\<forall>r. ?P (?pre @ ?obj @ []) = Inr r \<longrightarrow>
             (\<exists>r'. ?P (?pre @ []) = Inr r'
                  \<and> spaces r = spaces r' \<and> indoor_units r = indoor_units r'
                  \<and> comfort_settings r = comfort_settings r')
             \<and> (\<exists>s. topic_ids r ''space'' = Some s \<and> [0x61] \<in> s))"
    using inst0 by simp
  from ok obtain r' where r': "?P (?pre @ []) = Inr r'"
    by (cases "?P (?pre @ [])") auto
  with inst obtain r where r: "?P (?pre @ ?obj @ []) = Inr r"
    by (cases "?P (?pre @ ?obj @ [])") auto
  from inst r r' have "spaces r = spaces r'" and "\<exists>s. topic_ids r ''space'' = Some s \<and> [0x61] \<in> s"
    by auto
  with sp r r' show ?thesis by auto
qed

lemma header_id_via:
  assumes "value_bytes f = Inr raw" "decode_message raw = Inr ofs"
      and "get_first ofs 1 (Some 2) = Some hf" "value_bytes hf = Inr hraw"
      and "decode_message hraw = Inr hfs" "get_first hfs 1 (Some 2) = Some idf"
      and "value_str idf = Inr k"
  shows "header_id f = Some k"
  using assms unfolding header_id_def value_bytes_def
  by (auto split: pvalue.splits)

lemma parse_header_id:
  "parse_header hraw = Inr (Some hdr) \<Longrightarrow>
     \<exists>hfs idf. decode_message hraw = Inr hfs \<and> get_first hfs 1 (Some 2) = Some idf
        \<and> value_str idf = Inr (space_id hdr)"
  unfolding parse_header_def Let_def
  by (auto simp: bindE_eq_Inr split: if_splits)

lemma parse_indoor_unit_header_id:
  "parse_indoor_unit_header hraw = Inr (Some hdr) \<Longrightarrow>
     \<exists>hfs idf. decode_message hraw = Inr hfs \<and> get_first hfs 1 (Some 2) = Some idf
        \<and> value_str idf = Inr (indoor_unit_id hdr)"
  unfolding parse_indoor_unit_header_def Let_def
  by (auto simp: bindE_eq_Inr split: if_splits)

lemma parse_comfort_setting_header_id:
  "parse_comfort_setting_header hraw = Inr (Some hdr) \<Longrightarrow>
     \<exists>hfs idf. decode_message hraw = Inr hfs \<and> get_first hfs 1 (Some 2) = Some idf
        \<and> value_str idf = Inr (comfort_setting_id hdr)"
  unfolding parse_comfort_setting_header_def Let_def
  by (auto simp: bindE_eq_Inr split: if_splits)

lemma setdefault_add_lookup:
  "setdefault_add t k m t' = Some s \<Longrightarrow> x \<in> s \<Longrightarrow>
     (t' = t \<and> x = k) \<or> (\<exists>s'. m t' = Some s' \<and> x \<in> s')"
  unfolding setdefault_add_def by (auto split: if_splits option.splits)

lemma topic_object_shape:
  assumes "topic_object t x s = Inr s'"
  shows "spaces s' = spaces s \<and> indoor_units s' = indoor_units s
       \<and> comfort_settings s' = comfort_settings s
       \<and> (topic_ids s' = topic_ids s
            \<or> (\<exists>k. header_id x = Some k \<and> topic_ids s' = setdefault_add t k (topic_ids s)))"
proof -
  from assms obtain raw where raw: "value_bytes x = Inr raw"
    unfolding topic_object_def by (auto simp: bindE_eq_Inr)
  show ?thesis
  proof (cases "decode_message raw")
    case (Inl e)
    with assms raw show ?thesis
      unfolding topic_object_def by (auto split: error.splits)
  next
    case ofs: (Inr ofs)
    show ?thesis
    proof (cases "get_first ofs 1 (Some 2)")
      case None
      with assms raw ofs show ?thesis unfolding topic_object_def by simp
    next
      case hf: (Some hf)
      from assms raw ofs hf obtain hraw where hraw: "value_bytes hf = Inr hraw"
        unfolding topic_object_def by (auto simp: bindE_eq_Inr)
      show ?thesis
      proof (cases "decode_message hraw")
        case (Inl e)
        with assms raw ofs hf hraw show ?thesis
          unfolding topic_object_def by (auto split: error.splits)
      next
        case hfs: (Inr hfs)
        show ?thesis
        proof (cases "get_first hfs 1 (Some 2)")
          case None
          with assms raw ofs hf hraw hfs show ?thesis unfolding topic_object_def by simp
        next
          case idf: (Some idf)
          from assms raw ofs hf hraw hfs idf obtain k where k: "value_str idf = Inr k"
            unfolding topic_object_def by (auto simp: bindE_eq_Inr)
          note hid = header_id_via [OF raw ofs hf hraw hfs idf k]
          from assms raw ofs hf hraw hfs idf k hid show ?thesis
            unfolding topic_object_def
            by (auto simp: bindE_eq_Inr split: option.splits if_splits)
        qed
      qed
    qed
  qed
qed

lemma space_object_shape:
  assumes "space_object x s = Inr s'"
  shows "indoor_units s' = indoor_units s \<and> comfort_settings s' = comfort_settings s
       \<and> ((spaces s' = spaces s \<and> topic_ids s' = topic_ids s)
            \<or> (\<exists>k v. header_id x = Some k \<and> spaces s' = (spaces s)(k \<mapsto> v)
                  \<and> topic_ids s' = setdefault_add ''space'' k (topic_ids s)))"
proof -
  from assms obtain raw ofs header where raw: "value_bytes x = Inr raw"
    and ofs: "decode_message raw = Inr ofs"
    and header: "(case get_first ofs 1 (Some 2) of None \<Rightarrow> Inr None
                  | Some header_f \<Rightarrow> bindE (value_bytes header_f) parse_header) = Inr header"
    unfolding space_object_def by (auto simp: bindE_eq_Inr)
  show ?thesis
  proof (cases header)
    case None
    with assms raw ofs header show ?thesis unfolding space_object_def by simp
  next
    case (Some hdr)
    with header obtain hf hraw where hf: "get_first ofs 1 (Some 2) = Some hf"
      and hraw: "value_bytes hf = Inr hraw" and ph: "parse_header hraw = Inr (Some hdr)"
      by (auto simp: bindE_eq_Inr split: option.splits)
    from parse_header_id [OF ph] obtain hfs idf where
      "decode_message hraw = Inr hfs" "get_first hfs 1 (Some 2) = Some idf"
      "value_str idf = Inr (space_id hdr)" by auto
    note hid = header_id_via [OF raw ofs hf hraw this]
    from assms raw ofs header Some hid show ?thesis
      unfolding space_object_def
      by (auto simp: bindE_eq_Inr)
  qed
qed

lemma indoor_unit_object_shape:
  assumes "indoor_unit_object x s = Inr s'"
  shows "spaces s' = spaces s \<and> comfort_settings s' = comfort_settings s
       \<and> ((indoor_units s' = indoor_units s \<and> topic_ids s' = topic_ids s)
            \<or> (\<exists>k v. header_id x = Some k \<and> indoor_units s' = (indoor_units s)(k \<mapsto> v)
                  \<and> topic_ids s' = setdefault_add ''indoor_unit'' k (topic_ids s)))"
proof -
  from assms obtain raw where raw: "value_bytes x = Inr raw"
    unfolding indoor_unit_object_def by (auto simp: bindE_eq_Inr)
  show ?thesis
  proof (cases "decode_message raw")
    case (Inl e)
    with assms raw show ?thesis
      unfolding indoor_unit_object_def by (auto split: error.splits)
  next
    case ofs: (Inr ofs)
    from assms raw ofs obtain header where
      header: "(case get_first ofs 1 (Some 2) of None \<Rightarrow> Inr None
                | Some header_f \<Rightarrow> bindE (value_bytes header_f) parse_indoor_unit_header) = Inr header"
      unfolding indoor_unit_object_def by (auto simp: bindE_eq_Inr)
    show ?thesis
    proof (cases header)
      case None
      with assms raw ofs header show ?thesis unfolding indoor_unit_object_def by simp
    next
      case (Some hdr)
      with header obtain hf hraw where hf: "get_first ofs 1 (Some 2) = Some hf"
        and hraw: "value_bytes hf = Inr hraw"
        and ph: "parse_indoor_unit_header hraw = Inr (Some hdr)"
        by (auto simp: bindE_eq_Inr split: option.splits)
      from parse_indoor_unit_header_id [OF ph] obtain hfs idf where
        "decode_message hraw = Inr hfs" "get_first hfs 1 (Some 2) = Some idf"
        "value_str idf = Inr (indoor_unit_id hdr)" by auto
      note hid = header_id_via [OF raw ofs hf hraw this]
      from assms raw ofs header Some hid show ?thesis
        unfolding indoor_unit_object_def Let_def
        by (auto simp: bindE_eq_Inr)
    qed
  qed
qed

lemma comfort_setting_object_shape:
  assumes "comfort_setting_object x s = Inr s'"
  shows "spaces s' = spaces s \<and> indoor_units s' = indoor_units s
       \<and> ((comfort_settings s' = comfort_settings s \<and> topic_ids s' = topic_ids s)
            \<or> (\<exists>k v. header_id x = Some k \<and> comfort_settings s' = (comfort_settings s)(k \<mapsto> v)
                  \<and> topic_ids s' = setdefault_add ''comfort_setting'' k (topic_ids s)))"
proof -
  from assms obtain raw ofs header where raw: "value_bytes x = Inr raw"
    and ofs: "decode_message raw = Inr ofs"
    and header: "(case get_first ofs 1 (Some 2) of None \<Rightarrow> Inr None
                  | Some header_f \<Rightarrow> bindE (value_bytes header_f) parse_comfort_setting_header)
                 = Inr header"
    unfolding comfort_setting_object_def by (auto simp: bindE_eq_Inr)
  show ?thesis
  proof (cases header)
    case None
    with assms raw ofs header show ?thesis unfolding comfort_setting_object_def by simp
  next
    case (Some hdr)
    with header obtain hf hraw where hf: "get_first ofs 1 (Some 2) = Some hf"
      and hraw: "value_bytes hf = Inr hraw"
      and ph: "parse_comfort_setting_header hraw = Inr (Some hdr)"
      by (auto simp: bindE_eq_Inr split: option.splits)
    from parse_comfort_setting_header_id [OF ph] obtain hfs idf where
      "decode_message hraw = Inr hfs" "get_first hfs 1 (Some 2) = Some idf"
      "value_str idf = Inr (comfort_setting_id hdr)" by auto
    note hid = header_id_via [OF raw ofs hf hraw this]
    from assms raw ofs header Some hid show ?thesis
      unfolding comfort_setting_object_def Let_def
      by (auto simp: bindE_eq_Inr split: if_splits)
  qed
qed

lemma ids_from_empty: "ids_from top_fields hds_empty"
  by (simp add: ids_from_def hds_empty_def)

lemma ids_from_topic_object:
  assumes x: "x \<in> set top_fields" "wire_type x = 2" "(number x, t) \<in> set field_to_topic"
      and inv: "ids_from top_fields s"
      and run: "topic_object t x s = Inr s'"
  shows "ids_from top_fields s'"
proof -
  from topic_object_shape [OF run] have
    same: "spaces s' = spaces s" "indoor_units s' = indoor_units s"
          "comfort_settings s' = comfort_settings s"
    and tp: "topic_ids s' = topic_ids s
             \<or> (\<exists>k. header_id x = Some k \<and> topic_ids s' = setdefault_add t k (topic_ids s))"
    by auto
  have "\<exists>f \<in> set top_fields. wire_type f = 2 \<and> (number f, t') \<in> set field_to_topic
                \<and> header_id f = Some k"
    if "topic_ids s' t' = Some ks" "k \<in> ks" for t' ks k
  proof -
    from tp show ?thesis
    proof
      assume "topic_ids s' = topic_ids s"
      with that inv show ?thesis unfolding ids_from_def by auto
    next
      assume "\<exists>k. header_id x = Some k \<and> topic_ids s' = setdefault_add t k (topic_ids s)"
      then obtain k0 where k0: "header_id x = Some k0"
        and eq: "topic_ids s' = setdefault_add t k0 (topic_ids s)" by auto
      from that eq have "setdefault_add t k0 (topic_ids s) t' = Some ks" by simp
      from setdefault_add_lookup [OF this that(2)]
      show ?thesis
      proof
        assume "t' = t \<and> k = k0"
        with x k0 show ?thesis by auto
      next
        assume "\<exists>s'. topic_ids s t' = Some s' \<and> k \<in> s'"
        with inv show ?thesis unfolding ids_from_def by auto
      qed
    qed
  qed
  with inv same show ?thesis unfolding ids_from_def by auto
qed

lemma ids_from_entity:
  assumes x: "x \<in> set top_fields" "wire_type x = 2" "number x = n"
      and nt: "(n, t) \<in> set field_to_topic"
      and inv: "ids_from top_fields s"
      and tp: "topic_ids s' = topic_ids s
               \<or> (\<exists>k. header_id x = Some k \<and> topic_ids s' = setdefault_add t k (topic_ids s))"
      and sp: "\<forall>k \<in> dom (spaces s'). k \<in> dom (spaces s) \<or> (n = 3 \<and> header_id x = Some k)"
      and iu: "\<forall>k \<in> dom (indoor_units s'). k \<in> dom (indoor_units s) \<or> (n = 9 \<and> header_id x = Some k)"
      and cs: "\<forall>k \<in> dom (comfort_settings s').
                 k \<in> dom (comfort_settings s) \<or> (n = 13 \<and> header_id x = Some k)"
  shows "ids_from top_fields s'"
proof -
  have a: "\<exists>f \<in> set top_fields. number f = 3 \<and> wire_type f = 2 \<and> header_id f = Some k"
    if "k \<in> dom (spaces s')" for k
    using sp that inv x unfolding ids_from_def by blast
  have b: "\<exists>f \<in> set top_fields. number f = 9 \<and> wire_type f = 2 \<and> header_id f = Some k"
    if "k \<in> dom (indoor_units s')" for k
    using iu that inv x unfolding ids_from_def by blast
  have c: "\<exists>f \<in> set top_fields. number f = 13 \<and> wire_type f = 2 \<and> header_id f = Some k"
    if "k \<in> dom (comfort_settings s')" for k
    using cs that inv x unfolding ids_from_def by blast
  have d: "\<exists>f \<in> set top_fields. wire_type f = 2 \<and> (number f, t') \<in> set field_to_topic
                \<and> header_id f = Some k"
    if "topic_ids s' t' = Some ks" "k \<in> ks" for t' ks k
  proof -
    from tp show ?thesis
    proof
      assume "topic_ids s' = topic_ids s"
      with that inv show ?thesis unfolding ids_from_def by auto
    next
      assume "\<exists>k. header_id x = Some k \<and> topic_ids s' = setdefault_add t k (topic_ids s)"
      then obtain k0 where k0: "header_id x = Some k0"
        and eq: "topic_ids s' = setdefault_add t k0 (topic_ids s)" by auto
      from that eq have "setdefault_add t k0 (topic_ids s) t' = Some ks" by simp
      from setdefault_add_lookup [OF this that(2)]
      show ?thesis
      proof
        assume "t' = t \<and> k = k0"
        with x nt k0 show ?thesis by auto
      next
        assume "\<exists>s'. topic_ids s t' = Some s' \<and> k \<in> s'"
        with inv show ?thesis unfolding ids_from_def by auto
      qed
    qed
  qed
  from a b c d show ?thesis unfolding ids_from_def by blast
qed

lemma ids_from_space_object:
  assumes x: "x \<in> set top_fields" "wire_type x = 2" "number x = 3"
      and inv: "ids_from top_fields s"
      and run: "space_object x s = Inr s'"
  shows "ids_from top_fields s'"
proof (rule ids_from_entity [OF x _ inv, of "''space''"])
  show "(3, ''space'') \<in> set field_to_topic" by (simp add: field_to_topic_def)
  from space_object_shape [OF run]
  show "topic_ids s' = topic_ids s
        \<or> (\<exists>k. header_id x = Some k \<and> topic_ids s' = setdefault_add ''space'' k (topic_ids s))"
    and "\<forall>k \<in> dom (spaces s'). k \<in> dom (spaces s) \<or> ((3::int) = 3 \<and> header_id x = Some k)"
    and "\<forall>k \<in> dom (indoor_units s').
           k \<in> dom (indoor_units s) \<or> ((3::int) = 9 \<and> header_id x = Some k)"
    and "\<forall>k \<in> dom (comfort_settings s').
           k \<in> dom (comfort_settings s) \<or> ((3::int) = 13 \<and> header_id x = Some k)"
    by (auto split: if_splits)
qed

lemma ids_from_indoor_unit_object:
  assumes x: "x \<in> set top_fields" "wire_type x = 2" "number x = 9"
      and inv: "ids_from top_fields s"
      and run: "indoor_unit_object x s = Inr s'"
  shows "ids_from top_fields s'"
proof (rule ids_from_entity [OF x _ inv, of "''indoor_unit''"])
  show "(9, ''indoor_unit'') \<in> set field_to_topic" by (simp add: field_to_topic_def)
  from indoor_unit_object_shape [OF run]
  show "topic_ids s' = topic_ids s
        \<or> (\<exists>k. header_id x = Some k
              \<and> topic_ids s' = setdefault_add ''indoor_unit'' k (topic_ids s))"
    and "\<forall>k \<in> dom (spaces s'). k \<in> dom (spaces s) \<or> ((9::int) = 3 \<and> header_id x = Some k)"
    and "\<forall>k \<in> dom (indoor_units s').
           k \<in> dom (indoor_units s) \<or> ((9::int) = 9 \<and> header_id x = Some k)"
    and "\<forall>k \<in> dom (comfort_settings s').
           k \<in> dom (comfort_settings s) \<or> ((9::int) = 13 \<and> header_id x = Some k)"
    by (auto split: if_splits)
qed

lemma ids_from_comfort_setting_object:
  assumes x: "x \<in> set top_fields" "wire_type x = 2" "number x = 13"
      and inv: "ids_from top_fields s"
      and run: "comfort_setting_object x s = Inr s'"
  shows "ids_from top_fields s'"
proof (rule ids_from_entity [OF x _ inv, of "''comfort_setting''"])
  show "(13, ''comfort_setting'') \<in> set field_to_topic" by (simp add: field_to_topic_def)
  from comfort_setting_object_shape [OF run]
  show "topic_ids s' = topic_ids s
        \<or> (\<exists>k. header_id x = Some k
              \<and> topic_ids s' = setdefault_add ''comfort_setting'' k (topic_ids s))"
    and "\<forall>k \<in> dom (spaces s'). k \<in> dom (spaces s) \<or> ((13::int) = 3 \<and> header_id x = Some k)"
    and "\<forall>k \<in> dom (indoor_units s').
           k \<in> dom (indoor_units s) \<or> ((13::int) = 9 \<and> header_id x = Some k)"
    and "\<forall>k \<in> dom (comfort_settings s').
           k \<in> dom (comfort_settings s) \<or> ((13::int) = 13 \<and> header_id x = Some k)"
    by (auto split: if_splits)
qed

lemma ids_from_topic_index:
  assumes e: "e \<in> set field_to_topic"
      and inv: "ids_from top_fields s"
      and run: "topic_index top_fields e s = Inr s'"
  shows "ids_from top_fields s'"
proof (rule for_each_inv [where P = "ids_from top_fields", OF _ inv run [unfolded topic_index_def]])
  fix x s1 s2
  assume x: "x \<in> set (get_all top_fields (fst e) (Some 2))"
     and p: "ids_from top_fields s1" and b: "topic_object (snd e) x s1 = Inr s2"
  from get_all_set [OF x] e have "x \<in> set top_fields" "wire_type x = 2"
    "(number x, snd e) \<in> set field_to_topic" by auto
  from ids_from_topic_object [OF this p b] show "ids_from top_fields s2" .
qed

lemma hds_from_fields_ids:
  assumes "hds_from_fields top_fields = Inr r"
  shows "ids_from top_fields r"
proof -
  from assms obtain s1 s2 s3 where
    l1: "for_each (topic_index top_fields) field_to_topic hds_empty = Inr s1" and
    l2: "for_each indoor_unit_object (get_all top_fields 9 (Some 2)) s1 = Inr s2" and
    l3: "for_each space_object (get_all top_fields 3 (Some 2)) s2 = Inr s3" and
    l4: "for_each comfort_setting_object (get_all top_fields 13 (Some 2)) s3 = Inr r"
    unfolding hds_from_fields_def by (auto simp: bindE_eq_Inr)
  have p1: "ids_from top_fields s1"
    by (rule for_each_inv [where P = "ids_from top_fields", OF _ ids_from_empty l1])
       (rule ids_from_topic_index)
  have p2: "ids_from top_fields s2"
  proof (rule for_each_inv [where P = "ids_from top_fields", OF _ p1 l2])
    fix x sa sb
    assume x: "x \<in> set (get_all top_fields 9 (Some 2))"
       and p: "ids_from top_fields sa" and b: "indoor_unit_object x sa = Inr sb"
    from get_all_set [OF x] have "x \<in> set top_fields" "wire_type x = 2" "number x = 9" by auto
    from ids_from_indoor_unit_object [OF this p b] show "ids_from top_fields sb" .
  qed
  have p3: "ids_from top_fields s3"
  proof (rule for_each_inv [where P = "ids_from top_fields", OF _ p2 l3])
    fix x sa sb
    assume x: "x \<in> set (get_all top_fields 3 (Some 2))"
       and p: "ids_from top_fields sa" and b: "space_object x sa = Inr sb"
    from get_all_set [OF x] have "x \<in> set top_fields" "wire_type x = 2" "number x = 3" by auto
    from ids_from_space_object [OF this p b] show "ids_from top_fields sb" .
  qed
  show ?thesis
  proof (rule for_each_inv [where P = "ids_from top_fields", OF _ p3 l4])
    fix x sa sb
    assume x: "x \<in> set (get_all top_fields 13 (Some 2))"
       and p: "ids_from top_fields sa" and b: "comfort_setting_object x sa = Inr sb"
    from get_all_set [OF x] have "x \<in> set top_fields" "wire_type x = 2" "number x = 13" by auto
    from ids_from_comfort_setting_object [OF this p b] show "ids_from top_fields sb" .
  qed
qed

lemma objects_without_id:
  assumes "pvalue f = VBytes raw" "decode_message raw = Inr ofs"
      and "get_first ofs 1 (Some 2) = None
           \<or> (get_first ofs 1 (Some 2) = Some hf \<and> pvalue hf = VBytes hraw
                \<and> decode_message hraw = Inr hfs \<and> get_first hfs 1 (Some 2) = None)"
  shows "topic_object t f s = Inr s"
    and "indoor_unit_object f s = Inr s"
    and "space_object f s = Inr s"
    and "comfort_setting_object f s = Inr s"
  using assms
  unfolding topic_object_def indoor_unit_object_def space_object_def comfort_setting_object_def
    parse_indoor_unit_header_def parse_header_def parse_comfort_setting_header_def
  by (auto simp: value_bytes_def Let_def)


text \<open>
  Claim C2, as stated, fails: a Space whose header carries the id field with an empty value and
  a system id is stored under the empty id, and the empty id is recorded in the topic index.
  The decoders test the id field for presence only.
\<close>

theorem hds_empty_id_is_stored:
  "\<not> isl (parse_get_home_datastore_system_response
            [0x1a, 0x07, 0x0a, 0x05, 0x0a, 0x00, 0x22, 0x01, 0x73])
   \<and> spaces (projr (parse_get_home_datastore_system_response
            [0x1a, 0x07, 0x0a, 0x05, 0x0a, 0x00, 0x22, 0x01, 0x73])) [] \<noteq> None
   \<and> space_id (sp_header (the (spaces (projr (parse_get_home_datastore_system_response
            [0x1a, 0x07, 0x0a, 0x05, 0x0a, 0x00, 0x22, 0x01, 0x73])) []))) = []
   \<and> [] \<in> the (topic_ids (projr (parse_get_home_datastore_system_response
            [0x1a, 0x07, 0x0a, 0x05, 0x0a, 0x00, 0x22, 0x01, 0x73])) ''space'')"
  by code_simp


text \<open>
  Claim C2, amended. Every key of the maps of spaces, indoor units and comfort settings of the
  result, and every id recorded in the topic index, is the id that the id field of the header
  of one of the objects of the response carries (\<open>header_id\<close>; it may be empty), the object
  being of the kind of the map or topic. An object of one of the fifteen kinds that decodes,
  and whose header is absent or decodes and has no id field, is dropped: the result is that of
  the response without it.
\<close>

theorem hds_ids_are_header_ids:
  "(parse_get_home_datastore_system_response data = Inr r \<and> decode_message data = Inr top_fields \<longrightarrow>
      (\<forall>k \<in> dom (spaces r). \<exists>f \<in> set top_fields.
          number f = 3 \<and> wire_type f = 2 \<and> header_id f = Some k)
    \<and> (\<forall>k \<in> dom (indoor_units r). \<exists>f \<in> set top_fields.
          number f = 9 \<and> wire_type f = 2 \<and> header_id f = Some k)
    \<and> (\<forall>k \<in> dom (comfort_settings r). \<exists>f \<in> set top_fields.
          number f = 13 \<and> wire_type f = 2 \<and> header_id f = Some k)
    \<and> (\<forall>t s k. topic_ids r t = Some s \<longrightarrow> k \<in> s \<longrightarrow>
          (\<exists>f \<in> set top_fields. wire_type f = 2 \<and> (number f, t) \<in> set field_to_topic
                \<and> header_id f = Some k)))
   \<and> (decode_message pre = Inr pre_fields \<and> decode_message obj = Inr [f] \<and> decode_message post = Inr post_fields
        \<and> wire_type f = 2 \<and> number f \<in> fst ` set field_to_topic
        \<and> pvalue f = VBytes raw \<and> decode_message raw = Inr ofs
        \<and> (get_first ofs 1 (Some 2) = None
             \<or> (get_first ofs 1 (Some 2) = Some hf \<and> pvalue hf = VBytes hraw
                  \<and> decode_message hraw = Inr hfs \<and> get_first hfs 1 (Some 2) = None)) \<longrightarrow>
      parse_get_home_datastore_system_response (pre @ obj @ post) =
        parse_get_home_datastore_system_response (pre @ post))"
proof (intro conjI impI)
  assume a: "parse_get_home_datastore_system_response data = Inr r
             \<and> decode_message data = Inr top_fields"
  then have "hds_from_fields top_fields = Inr r"
    by (auto simp: parse_get_home_datastore_system_response_def)
  from hds_from_fields_ids [OF this] have inv: "ids_from top_fields r" .
  from inv show "\<forall>k \<in> dom (spaces r). \<exists>f \<in> set top_fields.
          number f = 3 \<and> wire_type f = 2 \<and> header_id f = Some k"
    unfolding ids_from_def by blast
  from inv show "\<forall>k \<in> dom (indoor_units r). \<exists>f \<in> set top_fields.
          number f = 9 \<and> wire_type f = 2 \<and> header_id f = Some k"
    unfolding ids_from_def by blast
  from inv show "\<forall>k \<in> dom (comfort_settings r). \<exists>f \<in> set top_fields.
          number f = 13 \<and> wire_type f = 2 \<and> header_id f = Some k"
    unfolding ids_from_def by blast
  from inv show "\<forall>t s k. topic_ids r t = Some s \<longrightarrow> k \<in> s \<longrightarrow>
          (\<exists>f \<in> set top_fields. wire_type f = 2 \<and> (number f, t) \<in> set field_to_topic
                \<and> header_id f = Some k)"
    unfolding ids_from_def by blast
next
  assume b: "decode_message pre = Inr pre_fields \<and> decode_message obj = Inr [f] \<and> decode_message post = Inr post_fields
        \<and> wire_type f = 2 \<and> number f \<in> fst ` set field_to_topic
        \<and> pvalue f = VBytes raw \<and> decode_message raw = Inr ofs
        \<and> (get_first ofs 1 (Some 2) = None
             \<or> (get_first ofs 1 (Some 2) = Some hf \<and> pvalue hf = VBytes hraw
                  \<and> decode_message hraw = Inr hfs \<and> get_first hfs 1 (Some 2) = None))"
  then have pre: "decode_message pre = Inr pre_fields" and obj: "decode_message obj = Inr [f]"
    and post: "decode_message post = Inr post_fields" and wt: "wire_type f = 2"
    and raw: "pvalue f = VBytes raw" and ofs: "decode_message raw = Inr ofs"
    and noid: "get_first ofs 1 (Some 2) = None
             \<or> (get_first ofs 1 (Some 2) = Some hf \<and> pvalue hf = VBytes hraw
                  \<and> decode_message hraw = Inr hfs \<and> get_first hfs 1 (Some 2) = None)"
    by simp_all
  from b obtain t where nt: "(number f, t) \<in> set field_to_topic" by auto
  note skip = objects_without_id [OF raw ofs noid]
  have ins: "hds_from_fields (pre_fields @ [f] @ post_fields) =
               map_sum id (with_topics (\<lambda>m. m)) (hds_from_fields (pre_fields @ post_fields))"
  proof (rule hds_from_fields_insert [OF refl wt nt])
    show "topic_object t f s = Inr (with_topics (\<lambda>m. m) s)" for s
      by (simp add: skip)
    show "commutes_add (\<lambda>m. m)" by (rule commutes_add_id)
    show "\<forall>s. indoor_unit_object f s = Inr s" by (simp add: skip)
    show "\<forall>s. space_object f s = Inr s" by (simp add: skip)
    show "\<forall>s. comfort_setting_object f s = Inr s" by (simp add: skip)
  qed
  have "parse_get_home_datastore_system_response (pre @ obj @ post) =
          map_sum id (with_topics (\<lambda>m. m))
            (parse_get_home_datastore_system_response (pre @ post))"
    by (rule parse_hds_insert [OF pre obj post ins])
  also have "\<dots> = parse_get_home_datastore_system_response (pre @ post)"
    by (cases "parse_get_home_datastore_system_response (pre @ post)") simp_all
  finally show "parse_get_home_datastore_system_response (pre @ obj @ post) =
        parse_get_home_datastore_system_response (pre @ post)" .
qed

theorem hds_ids_are_header_ids_witness:
  "(\<exists>f \<in> set [ProtoField 3 2 (VBytes [0x0a, 0x05, 0x0a, 0x00, 0x22, 0x01, 0x73])].
      number f = 3 \<and> wire_type f = 2 \<and> header_id f = Some [])
   \<and> parse_get_home_datastore_system_response
       ([0x1a, 0x08, 0x0a, 0x06, 0x0a, 0x01, 0x62, 0x22, 0x01, 0x73]
          @ [0x1a, 0x05, 0x0a, 0x03, 0x22, 0x01, 0x73] @ []) =
     parse_get_home_datastore_system_response
       ([0x1a, 0x08, 0x0a, 0x06, 0x0a, 0x01, 0x62, 0x22, 0x01, 0x73] @ [])"
proof -
  let ?P = "parse_get_home_datastore_system_response"
  let ?X = "[0x1a, 0x07, 0x0a, 0x05, 0x0a, 0x00, 0x22, 0x01, 0x73] :: bytes"
  let ?pre = "[0x1a, 0x08, 0x0a, 0x06, 0x0a, 0x01, 0x62, 0x22, 0x01, 0x73] :: bytes"
  let ?obj = "[0x1a, 0x05, 0x0a, 0x03, 0x22, 0x01, 0x73] :: bytes"
  let ?f = "ProtoField 3 2 (VBytes [0x0a, 0x03, 0x22, 0x01, 0x73])"
  let ?hf = "ProtoField 1 2 (VBytes [0x22, 0x01, 0x73])"
  have ok: "\<not> isl (?P ?X)" and dom: "spaces (projr (?P ?X)) [] \<noteq> None"
    by code_simp+
  from ok have px: "?P ?X = Inr (projr (?P ?X))" by (cases "?P ?X") simp_all
  have dx: "decode_message ?X =
              Inr [ProtoField 3 2 (VBytes [0x0a, 0x05, 0x0a, 0x00, 0x22, 0x01, 0x73])]"
    by code_simp
  from dom have indom: "[] \<in> dom (spaces (projr (?P ?X)))" by auto
  have part1: "\<exists>f \<in> set [ProtoField 3 2 (VBytes [0x0a, 0x05, 0x0a, 0x00, 0x22, 0x01, 0x73])].
      number f = 3 \<and> wire_type f = 2 \<and> header_id f = Some []"
  proof -
    note p1 = hds_ids_are_header_ids
            [where data = ?X and r = "projr (?P ?X)"
               and top_fields = "[ProtoField 3 2 (VBytes [0x0a, 0x05, 0x0a, 0x00, 0x22, 0x01, 0x73])]",
             THEN conjunct1]
    from p1 px dx have "\<forall>k \<in> dom (spaces (projr (?P ?X))).
        \<exists>f \<in> set [ProtoField 3 2 (VBytes [0x0a, 0x05, 0x0a, 0x00, 0x22, 0x01, 0x73])].
          number f = 3 \<and> wire_type f = 2 \<and> header_id f = Some k"
      by blast
    with indom show ?thesis by blast
  qed
  have pre: "decode_message ?pre =
               Inr [ProtoField 3 2 (VBytes [0x0a, 0x06, 0x0a, 0x01, 0x62, 0x22, 0x01, 0x73])]"
    by code_simp
  have obj: "decode_message ?obj = Inr [?f]" by code_simp
  have post: "decode_message [] = Inr []" by (rule decode_message_Nil)
  have d1: "decode_message [0x0a, 0x03, 0x22, 0x01, 0x73] = Inr [?hf]" by code_simp
  have d2: "decode_message [0x22, 0x01, 0x73] = Inr [ProtoField 4 2 (VBytes [0x73])]"
    by code_simp
  have tbl: "number ?f \<in> fst ` set field_to_topic" by (simp add: field_to_topic_def)
  have part2: "?P (?pre @ ?obj @ []) = ?P (?pre @ [])"
    using hds_ids_are_header_ids
            [where pre = ?pre and obj = ?obj and post = "[]" and f = ?f
               and pre_fields = "[ProtoField 3 2 (VBytes [0x0a, 0x06, 0x0a, 0x01, 0x62, 0x22, 0x01, 0x73])]"
               and post_fields = "[]" and raw = "[0x0a, 0x03, 0x22, 0x01, 0x73]" and ofs = "[?hf]"
               and hf = ?hf and hraw = "[0x22, 0x01, 0x73]"
               and hfs = "[ProtoField 4 2 (VBytes [0x73])]", THEN conjunct2]
          pre obj post d1 d2 tbl by simp
  from part1 part2 show ?thesis by (rule conjI)
qed

text \<open>
  The amended claim says nothing about objects that do not decode. A Space whose header bytes
  are malformed makes the whole parse fail: \<open>_parse_header\<close> is called outside any
  \<open>try\<close>, whereas the topic loop catches the same \<open>ProtoWireError\<close>.
\<close>

lemma hds_malformed_space_header_raises:
  "isl (parse_get_home_datastore_system_response [0x1a, 0x03, 0x0a, 0x01, 0x00])
   \<and> projl (parse_get_home_datastore_system_response [0x1a, 0x03, 0x0a, 0x01, 0x00]) =
         ProtoWireError FieldNumberZero"
  by code_simp

section \<open>Claims on the token expiry\<close>


lemma split_on_no_sep: "c \<notin> set s \<Longrightarrow> split_on c s = [s]"
  by (induction s) auto





end
